theory Spec2Isabelle
  imports Main "HOL-Library.AList" "HOL-Library.Code_Target_Nat"
begin

section \<open>JavaScript strings\<close>

text \<open>
  A JavaScript string is a sequence of UTF-16 code units. It is modelled as the list of
  its code units, each a natural number, so that \<open>length\<close>, \<open>slice\<close>,
  \<open>trim\<close> and the regular expressions of the source see what they see in the
  source. \<open>js ''abc''\<close> is the ASCII literal \<open>'abc'\<close>.
\<close>

type_synonym jstring = "nat list"

abbreviation (input) js :: "string \<Rightarrow> jstring" where
  "js s \<equiv> map of_char s"

text \<open>White space of \<open>String.prototype.trim\<close> and of the regular expression class
  \<open>\s\<close>: the WhiteSpace and LineTerminator code points of ECMAScript.\<close>

definition isSpace :: "nat \<Rightarrow> bool" where
  "isSpace u =
     (u = 9 \<or> u = 10 \<or> u = 11 \<or> u = 12 \<or> u = 13 \<or> u = 32 \<or> u = 160 \<or> u = 5760 \<or>
      (8192 \<le> u \<and> u \<le> 8202) \<or> u = 8232 \<or> u = 8233 \<or> u = 8239 \<or> u = 8287 \<or>
      u = 12288 \<or> u = 65279)"

definition trimEnd :: "jstring \<Rightarrow> jstring" where
  "trimEnd s = rev (dropWhile isSpace (rev s))"

definition trimStart :: "jstring \<Rightarrow> jstring" where
  "trimStart s = dropWhile isSpace s"

definition trim :: "jstring \<Rightarrow> jstring" where
  "trim s = trimStart (trimEnd s)"

text \<open>\<open>Array.prototype.join\<close> on an array of strings.\<close>

fun join :: "jstring \<Rightarrow> jstring list \<Rightarrow> jstring" where
  "join sep [] = []"
| "join sep [x] = x"
| "join sep (x # y # ys) = x @ sep @ join sep (y # ys)"

text \<open>\<open>String.prototype.repeat\<close>.\<close>

definition repeat :: "jstring \<Rightarrow> nat \<Rightarrow> jstring" where
  "repeat s n = concat (replicate n s)"

section \<open>The block tree (src/notion/markdown.ts)\<close>

text \<open>
  The source types a block as \<open>any\<close>. The model keeps the fields the code reads: the
  id, the type, the object stored under the key named by the type (\<open>block[type]\<close>, absent
  when the key is missing) and the children (\<open>[]\<close> also when \<open>block.children\<close> is not an
  array: the code treats a missing and an empty array alike). A rich text item keeps the
  field the renderer reads (\<open>plain_text\<close>) and the field the parser writes
  (\<open>text.content\<close>).
\<close>

record rich_text_item =
  plain_text :: "jstring option"
  text_content :: "jstring option"

record icon =
  icon_type :: jstring
  emoji :: "jstring option"
  custom_emoji_name :: "jstring option"

record payload =
  rich_text :: "rich_text_item list option"
  checked :: bool
  language :: "jstring option"
  callout_icon :: "icon option"
  page_title :: "jstring option"

datatype block =
  Block (block_id: jstring) (block_type: jstring) (block_payload: "payload option")
    (block_children: "block list")

definition INDENT :: jstring where
  "INDENT = js ''  ''"

definition richTextToPlain :: "rich_text_item list option \<Rightarrow> jstring" where
  "richTextToPlain richText =
     (case richText of
        None \<Rightarrow> []
      | Some chunks \<Rightarrow>
          concat (map (\<lambda>chunk. case plain_text chunk of None \<Rightarrow> [] | Some t \<Rightarrow> t) chunks))"

definition textContent :: "jstring \<Rightarrow> rich_text_item list" where
  "textContent content = [\<lparr>plain_text = None, text_content = Some content\<rparr>]"

text \<open>The default icon is U+1F4AC, two code units.\<close>

definition speechBalloon :: jstring where
  "speechBalloon = [55357, 56492]"

definition calloutIconToPlain :: "icon option \<Rightarrow> jstring" where
  "calloutIconToPlain ic =
     (case ic of
        None \<Rightarrow> speechBalloon
      | Some i \<Rightarrow>
          (case (if icon_type i = js ''emoji'' then emoji i else None) of
             Some (c # cs) \<Rightarrow> c # cs
           | _ \<Rightarrow>
             (case (if icon_type i = js ''custom_emoji'' then custom_emoji_name i else None) of
                Some (c # cs) \<Rightarrow> js '':'' @ (c # cs) @ js '':''
              | _ \<Rightarrow> speechBalloon)))"

text \<open>\<open>richTextToPlain(block[type]?.rich_text)\<close> and the other optional reads.\<close>

definition payloadText :: "payload option \<Rightarrow> jstring" where
  "payloadText pl = richTextToPlain (case pl of None \<Rightarrow> None | Some p \<Rightarrow> rich_text p)"

definition payloadChecked :: "payload option \<Rightarrow> bool" where
  "payloadChecked pl = (case pl of None \<Rightarrow> False | Some p \<Rightarrow> checked p)"

definition payloadLanguage :: "payload option \<Rightarrow> jstring" where
  "payloadLanguage pl =
     (case pl of None \<Rightarrow> [] | Some p \<Rightarrow> (case language p of None \<Rightarrow> [] | Some l \<Rightarrow> l))"

definition payloadIcon :: "payload option \<Rightarrow> icon option" where
  "payloadIcon pl = (case pl of None \<Rightarrow> None | Some p \<Rightarrow> callout_icon p)"

definition payloadTitle :: "payload option \<Rightarrow> jstring" where
  "payloadTitle pl =
     (case pl of
        None \<Rightarrow> js ''child-page''
      | Some p \<Rightarrow> (case page_title p of None \<Rightarrow> js ''child-page'' | Some t \<Rightarrow> t))"

definition quotePrefix :: "jstring \<Rightarrow> jstring" where
  "quotePrefix line = (if length line > 0 then js ''> '' @ line else js ''>'')"

fun renderBlock :: "block \<Rightarrow> nat \<Rightarrow> jstring list"
  and renderListChildren :: "block list \<Rightarrow> nat \<Rightarrow> jstring list"
  and renderCalloutChildren :: "block list \<Rightarrow> jstring list"
where
  "renderBlock (Block bid ty pl children) depth =
     (if ty = js ''paragraph'' then
        (let text = payloadText pl in if length text = 0 then [[]] else [text])
      else if ty = js ''heading_1'' then [js ''# '' @ payloadText pl]
      else if ty = js ''heading_2'' then [js ''## '' @ payloadText pl]
      else if ty = js ''heading_3'' then [js ''### '' @ payloadText pl]
      else if ty = js ''bulleted_list_item'' then
        (repeat INDENT depth @ js ''- '' @ payloadText pl)
          # renderListChildren children (depth + 1)
      else if ty = js ''numbered_list_item'' then
        (repeat INDENT depth @ js ''1. '' @ payloadText pl)
          # renderListChildren children (depth + 1)
      else if ty = js ''to_do'' then
        (repeat INDENT depth @ js ''- ['' @ (if payloadChecked pl then js ''x'' else js '' '')
           @ js ''] '' @ payloadText pl)
          # renderListChildren children (depth + 1)
      else if ty = js ''quote'' then [js ''> '' @ payloadText pl]
      else if ty = js ''callout'' then
        (let text = payloadText pl; ic = calloutIconToPlain (payloadIcon pl) in
           (if length text > 0 then js ''> '' @ ic @ js '' '' @ text else js ''> '' @ ic)
             # map quotePrefix (renderCalloutChildren children))
      else if ty = js ''code'' then
        [js ''```'' @ payloadLanguage pl, payloadText pl, js ''```'']
      else if ty = js ''divider'' then [js ''---'']
      else if ty = js ''child_database'' then [js ''[db:'' @ bid @ js '']'']
      else if ty = js ''child_page'' then [js ''[['' @ payloadTitle pl @ js '']]'']
      else [js ''<!-- unsupported:'' @ ty @ js '' id:'' @ bid @ js '' -->''])"
| "renderListChildren [] depth = []"
| "renderListChildren (child # rest) depth =
     map (\<lambda>line. repeat INDENT depth @ line) (renderBlock child (depth + 1))
       @ renderListChildren rest depth"
| "renderCalloutChildren [] = []"
| "renderCalloutChildren (child # rest) = renderBlock child 0 @ renderCalloutChildren rest"

text \<open>The body of the loop of \<open>notionBlocksToMarkdown\<close>: one block's section.\<close>

definition renderSection :: "block \<Rightarrow> jstring" where
  "renderSection b = trimEnd (join (js [CHR 0x0A]) (renderBlock b 0))"

definition notionBlocksToMarkdown :: "block list \<Rightarrow> jstring" where
  "notionBlocksToMarkdown blocks =
     trimEnd (join (js [CHR 0x0A, CHR 0x0A])
       (filter (\<lambda>section. length section > 0) (map renderSection blocks)))"



section \<open>Rendering: what a block contributes to the text\<close>

text \<open>The kinds \<open>renderBlock\<close> has a branch for.\<close>

definition supportedKinds :: "jstring list" where
  "supportedKinds = [js ''paragraph'', js ''heading_1'', js ''heading_2'', js ''heading_3'',
     js ''bulleted_list_item'', js ''numbered_list_item'', js ''to_do'', js ''quote'',
     js ''callout'', js ''code'', js ''divider'', js ''child_database'', js ''child_page'']"

text \<open>A paragraph whose text is empty or white space only.\<close>

definition blankParagraph :: "block \<Rightarrow> bool" where
  "blankParagraph b =
     (block_type b = js ''paragraph'' \<and> list_all isSpace (payloadText (block_payload b)))"

lemma trimEnd_eq_Nil: "trimEnd s = [] \<longleftrightarrow> list_all isSpace s"
  by (auto simp: trimEnd_def list_all_iff dropWhile_eq_Nil_conv)

lemma trimEnd_Cons_nonspace: "\<not> isSpace c \<Longrightarrow> trimEnd (c # xs) \<noteq> []"
  by (simp add: trimEnd_eq_Nil)

lemma trimEnd_last: "trimEnd s \<noteq> [] \<Longrightarrow> \<not> isSpace (last (trimEnd s))"
  unfolding trimEnd_def
  by (metis dropWhile_eq_Nil_conv hd_dropWhile last_rev rev_is_Nil_conv)

lemma trimEnd_id: "s = [] \<or> \<not> isSpace (last s) \<Longrightarrow> trimEnd s = s"
  unfolding trimEnd_def
  by (cases s rule: rev_cases) auto

lemma trimEnd_idem: "trimEnd (trimEnd s) = trimEnd s"
  by (metis trimEnd_id trimEnd_last)

lemma join_Cons: "join sep (x # xs) = (if xs = [] then x else x @ sep @ join sep xs)"
  by (cases xs) auto

lemma join_contains: "x \<in> set xs \<Longrightarrow> \<exists>pre post. join sep xs = pre @ x @ post"
proof (induction xs)
  case Nil then show ?case by simp
next
  case (Cons y ys)
  show ?case
  proof (cases "x = y")
    case True
    have "join sep (y # ys) = [] @ x @ (if ys = [] then [] else sep @ join sep ys)"
      using True by (simp add: join_Cons)
    then show ?thesis by blast
  next
    case False
    with Cons obtain pre post where "join sep ys = pre @ x @ post" by auto
    moreover have "ys \<noteq> []" using Cons.prems False by auto
    ultimately have "join sep (y # ys) = (y @ sep @ pre) @ x @ post"
      by (simp add: join_Cons)
    then show ?thesis by blast
  qed
qed

lemma join_last:
  "xs \<noteq> [] \<Longrightarrow> \<forall>x \<in> set xs. x \<noteq> [] \<Longrightarrow> join sep xs \<noteq> [] \<and> last (join sep xs) = last (last xs)"
proof (induction xs)
  case Nil then show ?case by simp
next
  case (Cons y ys)
  then show ?case by (cases ys) (auto simp: join_Cons)
qed

lemma join_head_nonspace:
  "\<not> isSpace c \<Longrightarrow> trimEnd (join sep ((c # r) # ls)) \<noteq> []"
  by (cases ls) (auto simp: trimEnd_eq_Nil)

lemma renderSection_nonempty:
  assumes "\<not> blankParagraph b"
  shows "renderSection b \<noteq> []"
proof (cases b)
  case (Block bid ty pl children)
  show ?thesis
  proof (cases "ty = js ''paragraph''")
    case True
    with assms Block have nb: "\<not> list_all isSpace (payloadText pl)"
      by (simp add: blankParagraph_def)
    then have "payloadText pl \<noteq> []" by auto
    with True Block nb show ?thesis
      by (simp add: renderSection_def trimEnd_eq_Nil Let_def)
  next
    case False
    have "\<exists>c r ls. renderBlock b 0 = (c # r) # ls \<and> \<not> isSpace c"
      using False unfolding Block
      by (simp add: isSpace_def repeat_def Let_def)
    then show ?thesis
      unfolding renderSection_def using join_head_nonspace by metis
  qed
qed

text \<open>Example blocks.\<close>

definition emptyPayload :: payload where
  "emptyPayload = \<lparr>rich_text = None, checked = False, language = None, callout_icon = None,
     page_title = None\<rparr>"

definition plainText :: "jstring \<Rightarrow> payload" where
  "plainText t = emptyPayload\<lparr>rich_text := Some [\<lparr>plain_text = Some t, text_content = None\<rparr>]\<rparr>"

text \<open>
  Claim C6, as the code has it. A block whose type is none of the supported kinds renders,
  at any depth, as the one line \<open><!-- unsupported:TYPE id:ID -->\<close>. Every block of
  the list given to \<open>notionBlocksToMarkdown\<close> that is not a blank paragraph has a
  non-empty section, and that section stands in the output text. A blank paragraph (its
  text empty or white space only) has the empty section, which the filter on the sections
  removes: it leaves no trace in the output.
\<close>

theorem unsupported_marker_and_sections:
  "(block_type b \<notin> set supportedKinds \<longrightarrow>
      renderBlock b depth =
        [js ''<!-- unsupported:'' @ block_type b @ js '' id:'' @ block_id b @ js '' -->''])
   \<and> (b \<in> set blocks \<longrightarrow> \<not> blankParagraph b \<longrightarrow>
      renderSection b \<noteq> [] \<and>
      (\<exists>pre post. notionBlocksToMarkdown blocks = pre @ renderSection b @ post))
   \<and> (blankParagraph b \<longrightarrow> renderSection b = [])"
proof (intro conjI impI)
  assume "block_type b \<notin> set supportedKinds"
  then show "renderBlock b depth =
      [js ''<!-- unsupported:'' @ block_type b @ js '' id:'' @ block_id b @ js '' -->'']"
    by (cases b) (simp add: supportedKinds_def)
next
  assume "\<not> blankParagraph b"
  then show "renderSection b \<noteq> []" by (rule renderSection_nonempty)
next
  assume mem: "b \<in> set blocks" and nb: "\<not> blankParagraph b"
  let ?secs = "filter (\<lambda>section. length section > 0) (map renderSection blocks)"
  have ne: "renderSection b \<noteq> []" using nb by (rule renderSection_nonempty)
  with mem have in_secs: "renderSection b \<in> set ?secs" by auto
  then have secs_ne: "?secs \<noteq> []" by (metis empty_iff empty_set)
  have all_ne: "\<forall>x \<in> set ?secs. x \<noteq> []" by auto
  have "last ?secs \<in> set ?secs" using secs_ne by (rule last_in_set)
  then obtain b' where "last ?secs = renderSection b'" and "renderSection b' \<noteq> []" by auto
  then have "\<not> isSpace (last (last ?secs))"
    using trimEnd_last [of "join (js [CHR 0x0A]) (renderBlock b' 0)"]
    by (simp add: renderSection_def)
  then have "\<not> isSpace (last (join (js [CHR 0x0A, CHR 0x0A]) ?secs))"
    using join_last [OF secs_ne all_ne] by simp
  then have "notionBlocksToMarkdown blocks = join (js [CHR 0x0A, CHR 0x0A]) ?secs"
    unfolding notionBlocksToMarkdown_def by (intro trimEnd_id) simp
  then show "\<exists>pre post. notionBlocksToMarkdown blocks = pre @ renderSection b @ post"
    using join_contains [OF in_secs] by simp
next
  assume "blankParagraph b"
  then show "renderSection b = []"
    by (cases b) (auto simp: blankParagraph_def renderSection_def trimEnd_eq_Nil Let_def)
qed

theorem unsupported_marker_and_sections_witness:
  "block_type (Block (js ''b1'') (js ''table'') None []) \<notin> set supportedKinds
   \<and> renderBlock (Block (js ''b1'') (js ''table'') None []) 0 =
        [js ''<!-- unsupported:table id:b1 -->'']
   \<and> Block (js ''b1'') (js ''table'') None []
        \<in> set [Block (js ''h'') (js ''heading_1'') (Some (plainText (js ''A''))) [],
                Block (js ''b1'') (js ''table'') None []]
   \<and> \<not> blankParagraph (Block (js ''b1'') (js ''table'') None [])
   \<and> renderSection (Block (js ''b1'') (js ''table'') None []) \<noteq> []
   \<and> (\<exists>pre post.
        notionBlocksToMarkdown
          [Block (js ''h'') (js ''heading_1'') (Some (plainText (js ''A''))) [],
           Block (js ''b1'') (js ''table'') None []]
        = pre @ renderSection (Block (js ''b1'') (js ''table'') None []) @ post)
   \<and> blankParagraph (Block (js ''p'') (js ''paragraph'') (Some (plainText (js '' ''))) [])
   \<and> renderSection (Block (js ''p'') (js ''paragraph'') (Some (plainText (js '' ''))) []) = []"
  using unsupported_marker_and_sections
    [of "Block (js ''b1'') (js ''table'') None []" 0
        "[Block (js ''h'') (js ''heading_1'') (Some (plainText (js ''A''))) [],
          Block (js ''b1'') (js ''table'') None []]"]
    unsupported_marker_and_sections
    [of "Block (js ''p'') (js ''paragraph'') (Some (plainText (js '' ''))) []" 0 "[]"]
  by (simp add: supportedKinds_def blankParagraph_def payloadText_def richTextToPlain_def
      plainText_def emptyPayload_def isSpace_def)

text \<open>
  Claim C6 as stated fails: a paragraph block with no text is dropped. The list of a
  heading and an empty paragraph renders as the heading alone, and the list of the empty
  paragraph alone renders as the empty text.
\<close>

theorem empty_paragraph_dropped:
  "notionBlocksToMarkdown
     [Block (js ''h'') (js ''heading_1'') (Some (plainText (js ''A''))) [],
      Block (js ''p'') (js ''paragraph'') (Some (emptyPayload\<lparr>rich_text := Some []\<rparr>)) []]
   = js ''# A''
   \<and> notionBlocksToMarkdown
     [Block (js ''p'') (js ''paragraph'') (Some (emptyPayload\<lparr>rich_text := Some []\<rparr>)) []]
   = []"
  by (simp add: notionBlocksToMarkdown_def renderSection_def payloadText_def
      richTextToPlain_def plainText_def emptyPayload_def trimEnd_def isSpace_def)

section \<open>Records of the remote store (src/notion/gateway.ts)\<close>

text \<open>
  \<open>NotionRecordMeta\<close>. The parent is typed \<open>any\<close>; the code reads its \<open>type\<close> and,
  for a page parent, its \<open>page_id\<close>.
\<close>

record parent_ref =
  parent_type :: jstring
  page_id :: "jstring option"

record NotionRecordMeta =
  recId :: jstring
  object :: jstring
  title :: jstring
  parent :: "parent_ref option"
  createdTime :: jstring
  lastEditedTime :: jstring
  owner :: jstring

text \<open>\<open>s.replace(/-/g, '')\<close>.\<close>

definition noDash :: "jstring \<Rightarrow> jstring" where
  "noDash s = filter (\<lambda>u. u \<noteq> of_char CHR ''-'') s"

definition shortId :: "jstring \<Rightarrow> jstring" where
  "shortId i = take 8 (noDash i)"

text \<open>A JavaScript \<open>Set\<close> of strings, as the list of its members in insertion order.\<close>

definition setHas :: "jstring \<Rightarrow> jstring list \<Rightarrow> bool" where
  "setHas x s = (x \<in> set s)"

definition setAdd :: "jstring \<Rightarrow> jstring list \<Rightarrow> jstring list" where
  "setAdd x s = (if x \<in> set s then s else s @ [x])"

text \<open>The items of \<open>filterByRoot\<close>: a record with its two derived fields.\<close>

record filter_item =
  item :: NotionRecordMeta
  idNoDash :: jstring
  parentPageNoDash :: "jstring option"

definition toItem :: "NotionRecordMeta \<Rightarrow> filter_item" where
  "toItem r =
     \<lparr>item = r,
      idNoDash = noDash (recId r),
      parentPageNoDash =
        (case parent r of
           None \<Rightarrow> None
         | Some p \<Rightarrow>
             (if parent_type p = js ''page_id'' then map_option noDash (page_id p) else None))\<rparr>"

text \<open>A string is truthy when it is defined and not empty.\<close>

definition truthy :: "jstring option \<Rightarrow> bool" where
  "truthy s = (case s of None \<Rightarrow> False | Some t \<Rightarrow> t \<noteq> [])"

text \<open>One run of the \<open>for\<close> loop over the items: the set and the \<open>changed\<close> flag.\<close>

fun expandPass :: "filter_item list \<Rightarrow> jstring list \<Rightarrow> bool \<Rightarrow> jstring list \<times> bool" where
  "expandPass [] included changed = (included, changed)"
| "expandPass (it # rest) included changed =
     (if setHas (idNoDash it) included then expandPass rest included changed
      else if truthy (parentPageNoDash it)
              \<and> (case parentPageNoDash it of None \<Rightarrow> False | Some p \<Rightarrow> setHas p included)
      then expandPass rest (setAdd (idNoDash it) included) True
      else expandPass rest included changed)"

lemma expandPass_mono:
  "expandPass items included changed = (inc', changed') \<Longrightarrow> set included \<subseteq> set inc'"
proof (induction items arbitrary: included changed)
  case Nil then show ?case by simp
next
  case (Cons it rest)
  show ?case
  proof (cases "setHas (idNoDash it) included")
    case True
    with Cons show ?thesis by simp
  next
    case False
    show ?thesis
    proof (cases "truthy (parentPageNoDash it)
              \<and> (case parentPageNoDash it of None \<Rightarrow> False | Some p \<Rightarrow> setHas p included)")
      case True
      with False Cons.prems
      have "expandPass rest (setAdd (idNoDash it) included) True = (inc', changed')" by simp
      from Cons.IH [OF this] show ?thesis by (auto simp: setAdd_def split: if_splits)
    next
      case F2: False
      with False Cons.prems have "expandPass rest included changed = (inc', changed')" by auto
      from Cons.IH [OF this] show ?thesis .
    qed
  qed
qed

lemma expandPass_changed:
  "expandPass items included changed = (inc', True) \<Longrightarrow> \<not> changed \<Longrightarrow>
     \<exists>it \<in> set items. idNoDash it \<notin> set included \<and> idNoDash it \<in> set inc'"
proof (induction items arbitrary: included changed)
  case Nil then show ?case by simp
next
  case (Cons it rest)
  show ?case
  proof (cases "setHas (idNoDash it) included")
    case True
    with Cons show ?thesis by auto
  next
    case False
    show ?thesis
    proof (cases "truthy (parentPageNoDash it)
              \<and> (case parentPageNoDash it of None \<Rightarrow> False | Some p \<Rightarrow> setHas p included)")
      case True
      with False Cons.prems have e: "expandPass rest (setAdd (idNoDash it) included) True = (inc', True)"
        by simp
      have "idNoDash it \<in> set (setAdd (idNoDash it) included)" by (simp add: setAdd_def)
      with expandPass_mono [OF e] have "idNoDash it \<in> set inc'" by blast
      with False show ?thesis by (auto simp: setHas_def)
    next
      case F2: False
      with False Cons.prems have "expandPass rest included changed = (inc', True)" by auto
      with Cons.IH [OF this] Cons.prems show ?thesis by auto
    qed
  qed
qed

lemma expandPass_measure:
  assumes "expandPass items included False = (inc', True)"
  shows "length (filter (\<lambda>it. idNoDash it \<notin> set inc') items)
       < length (filter (\<lambda>it. idNoDash it \<notin> set included) items)"
proof -
  let ?P = "\<lambda>it. idNoDash it \<notin> set inc'" and ?Q = "\<lambda>it. idNoDash it \<notin> set included"
  from expandPass_changed [OF assms] obtain it where
    it: "it \<in> set items" "?Q it" "\<not> ?P it" by auto
  have sub: "set included \<subseteq> set inc'" using expandPass_mono [OF assms] .
  have "filter ?P items = filter ?P (filter ?Q items)"
    using sub by (auto intro: filter_cong)
  moreover have "length (filter ?P (filter ?Q items)) < length (filter ?Q items)"
    using it by (intro length_filter_less [of it]) auto
  ultimately show ?thesis by simp
qed

function expand :: "filter_item list \<Rightarrow> jstring list \<Rightarrow> jstring list" where
  "expand items included =
     (case expandPass items included False of
        (included', changed) \<Rightarrow> if changed then expand items included' else included')"
  by pat_completeness auto
termination
  by (relation "measure (\<lambda>(items, included). length (filter (\<lambda>it. idNoDash it \<notin> set included) items))")
     (auto simp: expandPass_measure)

declare expand.simps [simp del]

definition filterByRoot :: "NotionRecordMeta list \<Rightarrow> jstring option \<Rightarrow> NotionRecordMeta list" where
  "filterByRoot records rootPageId =
     (case rootPageId of
        None \<Rightarrow> records
      | Some root \<Rightarrow>
          if root = [] then records
          else
            (let items = map toItem records;
                 included = expand items [noDash root]
             in map item (filter (\<lambda>it. setHas (idNoDash it) included) items)))"

text \<open>
  \<open>listRecords\<close>, given what the two searches return after \<open>toRecordMeta\<close>: the pages
  and the data sources.
\<close>

definition listRecords ::
  "NotionRecordMeta list \<Rightarrow> NotionRecordMeta list \<Rightarrow> jstring option
     \<Rightarrow> NotionRecordMeta list \<times> NotionRecordMeta list" where
  "listRecords rawPages rawDatabases rootPageId =
     (filterByRoot rawPages rootPageId, filterByRoot rawDatabases rootPageId)"

definition mkRecord :: "jstring \<Rightarrow> jstring \<Rightarrow> jstring \<Rightarrow> parent_ref option \<Rightarrow> NotionRecordMeta" where
  "mkRecord i obj t p =
     \<lparr>recId = i, object = obj, title = t, parent = p, createdTime = js ''2024-01-01T00:00:00.000Z'',
      lastEditedTime = js ''2024-01-01T00:00:00.000Z'', owner = js ''-''\<rparr>"

definition pageParent :: "jstring \<Rightarrow> parent_ref option" where
  "pageParent i = Some \<lparr>parent_type = js ''page_id'', page_id = Some i\<rparr>"

definition workspaceParent :: "parent_ref option" where
  "workspaceParent = Some \<lparr>parent_type = js ''workspace'', page_id = None\<rparr>"

text \<open>
  Claim C7 at a failing input. The root is the page \<open>r\<close> (Home); the page \<open>n\<close> (Notes)
  is its child and the data source \<open>d\<close> (DB1) is a child of Notes. With the root given,
  \<open>listRecords\<close> keeps both pages and drops DB1: the filter runs on the data sources
  alone, where the set of included ids starts from the root and never holds the id of
  Notes. Without a root nothing is dropped.
\<close>

theorem nested_collection_dropped:
  "listRecords
     [mkRecord (js ''r'') (js ''page'') (js ''Home'') workspaceParent,
      mkRecord (js ''n'') (js ''page'') (js ''Notes'') (pageParent (js ''r''))]
     [mkRecord (js ''d'') (js ''data_source'') (js ''DB1'') (pageParent (js ''n''))]
     (Some (js ''r''))
   = ([mkRecord (js ''r'') (js ''page'') (js ''Home'') workspaceParent,
       mkRecord (js ''n'') (js ''page'') (js ''Notes'') (pageParent (js ''r''))],
      [])
   \<and> listRecords
     [mkRecord (js ''r'') (js ''page'') (js ''Home'') workspaceParent,
      mkRecord (js ''n'') (js ''page'') (js ''Notes'') (pageParent (js ''r''))]
     [mkRecord (js ''d'') (js ''data_source'') (js ''DB1'') (pageParent (js ''n''))]
     None
   = ([mkRecord (js ''r'') (js ''page'') (js ''Home'') workspaceParent,
       mkRecord (js ''n'') (js ''page'') (js ''Notes'') (pageParent (js ''r''))],
      [mkRecord (js ''d'') (js ''data_source'') (js ''DB1'') (pageParent (js ''n''))])"
  by code_simp

section \<open>Names of siblings (src/vfs/index.ts)\<close>

text \<open>The decimal digits of a number, as a template literal prints it.\<close>

fun showNat :: "nat \<Rightarrow> jstring" where
  "showNat n = (if n < 10 then [48 + n] else showNat (n div 10) @ [48 + n mod 10])"

declare showNat.simps [simp del]

text \<open>
  \<open>slugify\<close> is a library function; the model takes it as a parameter.
\<close>

definition slugFromTitle :: "(jstring \<Rightarrow> jstring) \<Rightarrow> jstring \<Rightarrow> jstring" where
  "slugFromTitle slugify t =
     (let slugged = slugify t in if length slugged > 0 then slugged else js ''untitled'')"

definition numbered :: "jstring \<Rightarrow> nat \<Rightarrow> jstring" where
  "numbered withId i = withId @ js ''-'' @ showNat i"

lemma showNat_nonempty: "showNat n \<noteq> []"
  by (subst showNat.simps) simp

lemma showNat_last: "last (showNat n) = 48 + n mod 10"
  by (subst showNat.simps) simp

lemma showNat_butlast: "butlast (showNat n) = (if n < 10 then [] else showNat (n div 10))"
  by (subst showNat.simps) simp

lemma showNat_inj: "showNat n = showNat m \<Longrightarrow> n = m"
proof (induction n arbitrary: m rule: less_induct)
  case (less n)
  have l: "n mod 10 = m mod 10"
    using showNat_last [of n] showNat_last [of m] less.prems by simp
  have b: "(if n < 10 then [] else showNat (n div 10)) = (if m < 10 then [] else showNat (m div 10))"
    using showNat_butlast [of n] showNat_butlast [of m] less.prems by simp
  show ?case
  proof (cases "n < 10")
    case True
    with b have "m < 10" by (metis showNat_nonempty)
    with True l show ?thesis by simp
  next
    case False
    with b have m: "\<not> m < 10" using showNat_nonempty by (metis)
    with False b have "showNat (n div 10) = showNat (m div 10)" by simp
    moreover have "n div 10 < n" using False by simp
    ultimately have "n div 10 = m div 10" using less.IH by blast
    with l show ?thesis by (metis div_mult_mod_eq)
  qed
qed

lemma numbered_inj: "numbered w i = numbered w j \<Longrightarrow> i = j"
  by (simp add: numbered_def showNat_inj)

lemma findSuffix_measure:
  assumes "numbered w i \<in> set used"
  shows "length (filter (\<lambda>s. \<exists>j \<ge> Suc i. s = numbered w j) used)
       < length (filter (\<lambda>s. \<exists>j \<ge> i. s = numbered w j) used)"
proof -
  let ?P = "\<lambda>s. \<exists>j \<ge> Suc i. s = numbered w j" and ?Q = "\<lambda>s. \<exists>j \<ge> i. s = numbered w j"
  have imp: "\<And>s. ?P s \<Longrightarrow> ?Q s"
  proof -
    fix s assume "?P s"
    then obtain j where "Suc i \<le> j" "s = numbered w j" by blast
    then have "i \<le> j \<and> s = numbered w j" by simp
    then show "?Q s" by blast
  qed
  have "filter ?P used = filter ?P (filter ?Q used)"
    unfolding filter_filter by (rule filter_cong) (use imp in blast)+
  moreover have "length (filter ?P (filter ?Q used)) < length (filter ?Q used)"
  proof (rule length_filter_less [of "numbered w i"])
    show "numbered w i \<in> set (filter ?Q used)" using assms by auto
    show "\<not> ?P (numbered w i)" using numbered_inj by fastforce
  qed
  ultimately show ?thesis by simp
qed

text \<open>The \<open>while\<close> loop of \<open>uniqueName\<close>: the first \<open>i\<close>, from the given one, whose
  candidate is free.\<close>

function findSuffix :: "jstring \<Rightarrow> jstring list \<Rightarrow> nat \<Rightarrow> nat" where
  "findSuffix withId usedNames i =
     (if setHas (numbered withId i) usedNames then findSuffix withId usedNames (i + 1) else i)"
  by pat_completeness auto
termination
  by (relation "measure (\<lambda>(w, used, i). length (filter (\<lambda>s. \<exists>j \<ge> i. s = numbered w j) used))")
     (auto simp: findSuffix_measure setHas_def)

declare findSuffix.simps [simp del]

definition uniqueName :: "jstring \<Rightarrow> jstring list \<Rightarrow> jstring \<Rightarrow> jstring \<times> jstring list" where
  "uniqueName baseName usedNames fallbackId =
     (if \<not> setHas baseName usedNames then (baseName, setAdd baseName usedNames)
      else
        (let withId = baseName @ js ''-'' @ shortId fallbackId in
           if \<not> setHas withId usedNames then (withId, setAdd withId usedNames)
           else
             (let i = findSuffix withId usedNames 2;
                  candidate = numbered withId i
              in (candidate, setAdd candidate usedNames))))"

lemma findSuffix_spec:
  "i \<le> findSuffix w used i
   \<and> numbered w (findSuffix w used i) \<notin> set used
   \<and> (\<forall>j. i \<le> j \<and> j < findSuffix w used i \<longrightarrow> numbered w j \<in> set used)"
proof (induction w used i rule: findSuffix.induct)
  case (1 w used i)
  show ?case
  proof (cases "setHas (numbered w i) used")
    case True
    then have e: "findSuffix w used i = findSuffix w used (i + 1)"
      by (subst findSuffix.simps) simp
    from "1.IH" [OF True] True show ?thesis
      unfolding e by (auto simp: setHas_def) (metis Suc_leI le_neq_implies_less)
  next
    case False
    then have "findSuffix w used i = i" by (subst findSuffix.simps) simp
    with False show ?thesis by (auto simp: setHas_def)
  qed
qed

lemma uniqueName_fresh:
  "uniqueName b used i = (name, used') \<Longrightarrow> name \<notin> set used \<and> used' = used @ [name]"
  using findSuffix_spec [of 2 "b @ js ''-'' @ shortId i" used]
  by (auto simp: uniqueName_def setHas_def setAdd_def Let_def split: if_splits)

text \<open>
  The names \<open>buildPageTree\<close> gives to the pages it is called with for one parent
  directory, in the order of the calls: every call passes the same \<open>Set\<close> of that
  directory to \<open>uniqueName\<close>.
\<close>

fun siblingNames ::
  "(jstring \<Rightarrow> jstring) \<Rightarrow> NotionRecordMeta list \<Rightarrow> jstring list \<Rightarrow> jstring list" where
  "siblingNames slugify [] used = []"
| "siblingNames slugify (page # rest) used =
     (case uniqueName (slugFromTitle slugify (title page)) used (recId page) of
        (dirName, used') \<Rightarrow> dirName # siblingNames slugify rest used')"

lemma siblingNames_distinct:
  "distinct (siblingNames slugify pages used) \<and> set (siblingNames slugify pages used) \<inter> set used = {}"
proof (induction pages arbitrary: used)
  case Nil then show ?case by simp
next
  case (Cons page rest)
  obtain name used' where u: "uniqueName (slugFromTitle slugify (title page)) used (recId page) = (name, used')"
    by (cases "uniqueName (slugFromTitle slugify (title page)) used (recId page)")
  from uniqueName_fresh [OF u] have f: "name \<notin> set used" "used' = used @ [name]" by auto
  from Cons.IH [of used'] f u show ?case by auto
qed

lemma uniqueName_cases:
  assumes "uniqueName b used i = (n, u)"
  shows "(b \<notin> set used \<longrightarrow> n = b)
     \<and> (b \<in> set used \<and> b @ js ''-'' @ shortId i \<notin> set used \<longrightarrow> n = b @ js ''-'' @ shortId i)
     \<and> (b \<in> set used \<and> b @ js ''-'' @ shortId i \<in> set used \<longrightarrow>
          (\<exists>k\<ge>2. n = numbered (b @ js ''-'' @ shortId i) k
             \<and> (\<forall>j. 2 \<le> j \<and> j < k \<longrightarrow> numbered (b @ js ''-'' @ shortId i) j \<in> set used)))"
proof -
  let ?w = "b @ js ''-'' @ shortId i"
  let ?k = "findSuffix ?w used 2"
  from findSuffix_spec [of 2 ?w used]
  have k: "2 \<le> ?k" "\<forall>j. 2 \<le> j \<and> j < ?k \<longrightarrow> numbered ?w j \<in> set used" by blast+
  have "b \<in> set used \<and> ?w \<in> set used \<longrightarrow> n = numbered ?w ?k"
    using assms by (auto simp: uniqueName_def setHas_def Let_def)
  with k have c: "b \<in> set used \<and> ?w \<in> set used \<longrightarrow>
          (\<exists>k\<ge>2. n = numbered ?w k \<and> (\<forall>j. 2 \<le> j \<and> j < k \<longrightarrow> numbered ?w j \<in> set used))"
    by blast
  have a: "b \<notin> set used \<longrightarrow> n = b"
    using assms by (auto simp: uniqueName_def setHas_def Let_def)
  have b: "b \<in> set used \<and> ?w \<notin> set used \<longrightarrow> n = ?w"
    using assms by (auto simp: uniqueName_def setHas_def Let_def)
  from a b c show ?thesis by blast
qed

lemma siblingNames_pair:
  assumes "slugFromTitle slugify (title p1) = s" and "slugFromTitle slugify (title p2) = s"
    and "s \<notin> set used" and "s @ js ''-'' @ shortId (recId p2) \<notin> set used"
  shows "siblingNames slugify [p1, p2] used = [s, s @ js ''-'' @ shortId (recId p2)]"
  using assms by (simp add: uniqueName_def setHas_def setAdd_def Let_def)

text \<open>
  Claim C4. \<open>uniqueName\<close> always returns (its loop ends for every set of used names), and
  what it returns is a function of its arguments. The name is not among the used names
  and is added to them. It is the base name when that is unused; the base name, a hyphen
  and the fingerprint of the id (its first 8 code units other than hyphens) when the base
  name is used and this one is not; and otherwise that name with a hyphen and the first
  number from 2 on whose candidate is unused. The names given in turn to any list of pages
  under one parent are distinct, and none is a name used before. Two pages with the same
  slug, under a parent where the slug and the slug with the second's fingerprint are
  unused, get the slug and the slug with that fingerprint.
\<close>

theorem sibling_name_resolution:
  "(\<forall>n u. uniqueName b used i = (n, u) \<longrightarrow>
       n \<notin> set used \<and> u = used @ [n]
       \<and> (b \<notin> set used \<longrightarrow> n = b)
       \<and> (b \<in> set used \<and> b @ js ''-'' @ shortId i \<notin> set used \<longrightarrow>
            n = b @ js ''-'' @ shortId i)
       \<and> (b \<in> set used \<and> b @ js ''-'' @ shortId i \<in> set used \<longrightarrow>
            (\<exists>k\<ge>2. n = numbered (b @ js ''-'' @ shortId i) k
               \<and> (\<forall>j. 2 \<le> j \<and> j < k \<longrightarrow>
                     numbered (b @ js ''-'' @ shortId i) j \<in> set used))))
   \<and> (\<exists>n u. uniqueName b used i = (n, u))
   \<and> distinct (siblingNames slugify pages used)
   \<and> set (siblingNames slugify pages used) \<inter> set used = {}
   \<and> (slugFromTitle slugify (title p1) = slugFromTitle slugify (title p2)
       \<and> slugFromTitle slugify (title p1) \<notin> set used
       \<and> slugFromTitle slugify (title p1) @ js ''-'' @ shortId (recId p2) \<notin> set used
       \<longrightarrow> siblingNames slugify [p1, p2] used
             = [slugFromTitle slugify (title p1),
                slugFromTitle slugify (title p1) @ js ''-'' @ shortId (recId p2)])"
proof (intro conjI allI impI)
  fix n u assume a: "uniqueName b used i = (n, u)"
  from uniqueName_fresh [OF a] show "n \<notin> set used" and "u = used @ [n]" by blast+
  from uniqueName_cases [OF a]
  show "b \<notin> set used \<Longrightarrow> n = b"
    and "b \<in> set used \<and> b @ js ''-'' @ shortId i \<notin> set used \<Longrightarrow> n = b @ js ''-'' @ shortId i"
    and "b \<in> set used \<and> b @ js ''-'' @ shortId i \<in> set used \<Longrightarrow>
            (\<exists>k\<ge>2. n = numbered (b @ js ''-'' @ shortId i) k
               \<and> (\<forall>j. 2 \<le> j \<and> j < k \<longrightarrow>
                     numbered (b @ js ''-'' @ shortId i) j \<in> set used))"
    by blast+
next
  show "\<exists>n u. uniqueName b used i = (n, u)" by (cases "uniqueName b used i") blast
next
  show "distinct (siblingNames slugify pages used)"
    and "set (siblingNames slugify pages used) \<inter> set used = {}"
    using siblingNames_distinct by blast+
next
  assume h: "slugFromTitle slugify (title p1) = slugFromTitle slugify (title p2)
       \<and> slugFromTitle slugify (title p1) \<notin> set used
       \<and> slugFromTitle slugify (title p1) @ js ''-'' @ shortId (recId p2) \<notin> set used"
  then have e: "slugFromTitle slugify (title p2) = slugFromTitle slugify (title p1)" by simp
  from siblingNames_pair [OF refl e] h
  show "siblingNames slugify [p1, p2] used
             = [slugFromTitle slugify (title p1),
                slugFromTitle slugify (title p1) @ js ''-'' @ shortId (recId p2)]"
    by blast
qed

section \<open>Paths (node:path's posix functions, src/utils/path.ts)\<close>

text \<open>
  \<open>posix.normalize\<close> and \<open>posix.join\<close> of Node's standard library, which works through
  the path one segment at a time: an empty segment and \<open>.\<close> are skipped, \<open>..\<close> removes the
  segment before it (or is kept, in a relative path with nothing to remove), every other
  segment is kept.
\<close>

definition slash :: nat where
  "slash = of_char CHR ''/''"

fun splitOn :: "nat \<Rightarrow> jstring \<Rightarrow> jstring list" where
  "splitOn sep [] = [[]]"
| "splitOn sep (c # cs) =
     (if c = sep then [] # splitOn sep cs
      else (case splitOn sep cs of [] \<Rightarrow> [[c]] | s # ss \<Rightarrow> (c # s) # ss))"

fun normalizeString :: "bool \<Rightarrow> jstring list \<Rightarrow> jstring list \<Rightarrow> jstring list" where
  "normalizeString allowAboveRoot res [] = res"
| "normalizeString allowAboveRoot res (seg # rest) =
     (if seg = [] \<or> seg = js ''.'' then normalizeString allowAboveRoot res rest
      else if seg = js ''..'' then
        (if res \<noteq> [] \<and> last res \<noteq> js ''..'' then
           normalizeString allowAboveRoot (butlast res) rest
         else if allowAboveRoot then normalizeString allowAboveRoot (res @ [js ''..'']) rest
         else normalizeString allowAboveRoot res rest)
      else normalizeString allowAboveRoot (res @ [seg]) rest)"

definition startsWithSlash :: "jstring \<Rightarrow> bool" where
  "startsWithSlash s = (case s of [] \<Rightarrow> False | c # cs \<Rightarrow> c = slash)"

definition endsWithSlash :: "jstring \<Rightarrow> bool" where
  "endsWithSlash s = (s \<noteq> [] \<and> last s = slash)"

definition posixNormalize :: "jstring \<Rightarrow> jstring" where
  "posixNormalize p =
     (if length p = 0 then js ''.''
      else
        (let isAbsolute = startsWithSlash p;
             trailingSeparator = endsWithSlash p;
             q = join [slash] (normalizeString (\<not> isAbsolute) [] (splitOn slash p))
         in if length q = 0 then
              (if isAbsolute then [slash] else if trailingSeparator then js ''./'' else js ''.'')
            else (if isAbsolute then [slash] else [])
                   @ q @ (if trailingSeparator then [slash] else [])))"

definition posixJoin :: "jstring list \<Rightarrow> jstring" where
  "posixJoin args =
     (let parts = filter (\<lambda>arg. length arg > 0) args
      in if parts = [] then js ''.'' else posixNormalize (join [slash] parts))"

definition resolveVirtualPath :: "jstring \<Rightarrow> jstring \<Rightarrow> jstring" where
  "resolveVirtualPath input cwd =
     (let base = (if startsWithSlash input then input else posixJoin [cwd, input]);
          normalized = posixNormalize base;
          normalized1 = (if \<not> startsWithSlash normalized then slash # normalized else normalized)
      in if length normalized1 > 1 \<and> endsWithSlash normalized1 then butlast normalized1
         else normalized1)"

section \<open>The namespace (src/vfs/types.ts, src/vfs/index.ts)\<close>

record EntryMeta =
  meta_createdTime :: "jstring option"
  meta_lastEditedTime :: "jstring option"
  meta_owner :: "jstring option"
  meta_pageId :: "jstring option"
  meta_databaseId :: "jstring option"

record BaseEntry =
  name :: jstring
  path :: jstring
  parentPath :: jstring
  meta :: EntryMeta

record DirEntry = BaseEntry +
  children :: "jstring list"

record FileEntry = BaseEntry +
  readonly :: bool
  pageId :: jstring

record DbPlaceholderEntry = BaseEntry +
  databaseId :: jstring

datatype FsEntry = Dir DirEntry | File FileEntry | Db DbPlaceholderEntry

record MarkdownCacheEntry =
  markdown :: jstring
  fetchedAt :: int
  cache_lastEditedTime :: "jstring option"

text \<open>
  The state of a \<open>VirtualFs\<close>. A JavaScript \<open>Map\<close> is the list of its key-value pairs
  in insertion order, read with \<open>map_of\<close> and written with \<open>AList.update\<close>.
  \<open>refreshPromise\<close> says whether the field holds a promise (the code only tests it
  against null and returns it).
\<close>

record VirtualFs =
  entries :: "(jstring \<times> FsEntry) list"
  pageDirPathById :: "(jstring \<times> jstring) list"
  cache :: "(jstring \<times> MarkdownCacheEntry) list"
  notionPages :: "(jstring \<times> NotionRecordMeta) list"
  ttlMs :: int
  rootPageId :: "jstring option"
  refreshPromise :: bool
  lastRefreshAt :: int
  indexedAtLeastOnce :: bool

text \<open>The errors the code throws, with the message of each.\<close>

datatype fs_error =
    ParentDirectoryMissing jstring
  | PathDoesNotExist jstring
  | NotADirectory jstring
  | ReadOnlyDatabasePlaceholder jstring
  | FileDoesNotExist jstring
  | CannotWriteToDatabasePlaceholder jstring
  | ConflictDetected jstring jstring jstring
  | GatewayFailure jstring
  | UsageError jstring
  | LineOutOfRange jstring
  | CallStackExceeded

definition errorMessage :: "fs_error \<Rightarrow> jstring" where
  "errorMessage e =
     (case e of
        ParentDirectoryMissing p \<Rightarrow> js ''Parent directory missing for '' @ p
      | PathDoesNotExist p \<Rightarrow> js ''Path does not exist: '' @ p
      | NotADirectory p \<Rightarrow> js ''Not a directory: '' @ p
      | ReadOnlyDatabasePlaceholder p \<Rightarrow> js ''Read-only database placeholder: '' @ p
      | FileDoesNotExist p \<Rightarrow> js ''File does not exist: '' @ p
      | CannotWriteToDatabasePlaceholder p \<Rightarrow> js ''Cannot write to database placeholder: '' @ p
      | ConflictDetected p remote local \<Rightarrow>
          js ''Conflict detected for '' @ p
            @ js ''. Remote page changed since last sync (remote: '' @ remote
            @ js '', local: '' @ local @ js ''). Run refresh and merge manually.''
      | GatewayFailure m \<Rightarrow> m
      | UsageError m \<Rightarrow> m
      | LineOutOfRange n \<Rightarrow> js ''Line out of range: '' @ n
      | CallStackExceeded \<Rightarrow> js ''Maximum call stack size exceeded'')"

text \<open>
  The gateway, as the namespace uses it (\<open>this.notion\<close>): each call takes the state of
  the remote store and returns its result with the new state.

  Modelled from the spec: \<open>getPageMeta\<close> is called by \<open>writeFile\<close> and is not among the
  methods of the gateway's source; the spec gives it as
  \<open>getMetadata(id) -> {lastEditedAt, owner}\<close>, a metadata-only fetch.
\<close>

record PageMeta =
  pm_lastEditedTime :: jstring
  pm_owner :: jstring

record 'w Gateway =
  notion_listRecords ::
    "jstring option \<Rightarrow> 'w \<Rightarrow> (fs_error + NotionRecordMeta list \<times> NotionRecordMeta list) \<times> 'w"
  notion_readPageMarkdown :: "jstring \<Rightarrow> 'w \<Rightarrow> (fs_error + jstring) \<times> 'w"
  notion_getPageMeta :: "jstring \<Rightarrow> 'w \<Rightarrow> (fs_error + PageMeta) \<times> 'w"
  notion_replacePageMarkdown :: "jstring \<Rightarrow> jstring \<Rightarrow> 'w \<Rightarrow> (fs_error + unit) \<times> 'w"
  notion_createPage ::
    "jstring \<Rightarrow> jstring option \<Rightarrow> 'w \<Rightarrow> (fs_error + NotionRecordMeta) \<times> 'w"

text \<open>The calls made to the gateway, in order.\<close>

datatype gateway_call =
    ListRecords "jstring option"
  | ReadPageMarkdown jstring
  | GetPageMeta jstring
  | ReplacePageMarkdown jstring jstring
  | CreatePage jstring "jstring option"

definition ensurePageFile :: "VirtualFs \<Rightarrow> jstring \<Rightarrow> jstring \<Rightarrow> fs_error + FileEntry" where
  "ensurePageFile fs pathInput cwd =
     (let resolved = resolveVirtualPath pathInput cwd in
      case map_of (entries fs) resolved of
        Some (File direct) \<Rightarrow> Inr direct
      | Some (Dir direct) \<Rightarrow>
          (case map_of (entries fs) (posixJoin [path direct, js ''index.md'']) of
             Some (File indexEntry) \<Rightarrow> Inr indexEntry
           | _ \<Rightarrow> Inl (FileDoesNotExist resolved))
      | Some (Db direct) \<Rightarrow> Inl (ReadOnlyDatabasePlaceholder (path direct))
      | None \<Rightarrow> Inl (FileDoesNotExist resolved))"

definition newline :: nat where
  "newline = 10"

definition placeholderText :: "jstring \<Rightarrow> jstring" where
  "placeholderText dbId =
     trim (js ''# Database Placeholder'' @ [newline, newline] @ js ''[db:'' @ dbId @ js '']''
           @ [newline, newline] @ js ''Database mounting is disabled in MVP.'')"

text \<open>
  \<open>readFile\<close> once the file entry is known. \<open>now\<close> is the clock at the test of the
  cached entry, \<open>now'\<close> the clock when the fetched text is stored.
\<close>

definition readFileEntry ::
  "'w Gateway \<Rightarrow> int \<Rightarrow> int \<Rightarrow> FileEntry \<Rightarrow> VirtualFs \<Rightarrow> 'w
     \<Rightarrow> (fs_error + jstring) \<times> VirtualFs \<times> 'w \<times> gateway_call list" where
  "readFileEntry g now now' file fs w =
     (case (case map_of (cache fs) (pageId file) of
              None \<Rightarrow> None
            | Some cached \<Rightarrow> if now - fetchedAt cached < ttlMs fs then Some cached else None) of
        Some cached \<Rightarrow> (Inr (markdown cached), fs, w, [])
      | None \<Rightarrow>
          (case notion_readPageMarkdown g (pageId file) w of
             (Inl e, w') \<Rightarrow> (Inl e, fs, w', [ReadPageMarkdown (pageId file)])
           | (Inr fetched, w') \<Rightarrow>
               (Inr fetched,
                fs\<lparr>cache := AList.update (pageId file)
                      \<lparr>markdown = fetched, fetchedAt = now',
                       cache_lastEditedTime = meta_lastEditedTime (meta file)\<rparr> (cache fs)\<rparr>,
                w', [ReadPageMarkdown (pageId file)])))"

definition readFile ::
  "'w Gateway \<Rightarrow> int \<Rightarrow> int \<Rightarrow> jstring \<Rightarrow> jstring \<Rightarrow> VirtualFs \<Rightarrow> 'w
     \<Rightarrow> (fs_error + jstring) \<times> VirtualFs \<times> 'w \<times> gateway_call list" where
  "readFile g now now' pathInput cwd fs w =
     (case map_of (entries fs) (resolveVirtualPath pathInput cwd) of
        Some (Db entry) \<Rightarrow> (Inr (placeholderText (databaseId entry)), fs, w, [])
      | _ \<Rightarrow>
          (case ensurePageFile fs pathInput cwd of
             Inl e \<Rightarrow> (Inl e, fs, w, [])
           | Inr file \<Rightarrow> readFileEntry g now now' file fs w))"

text \<open>
  \<open>writeFile\<close> once the file entry is known. The entry is an object shared with the map:
  the assignment to its \<open>meta\<close> is a write to the map at the entry's key.
\<close>

definition setFileMeta :: "FileEntry \<Rightarrow> PageMeta \<Rightarrow> FileEntry" where
  "setFileMeta file updatedMeta =
     file\<lparr>meta := (meta file)\<lparr>meta_lastEditedTime := Some (pm_lastEditedTime updatedMeta),
                              meta_owner := Some (pm_owner updatedMeta)\<rparr>\<rparr>"

definition writeFileEntry ::
  "'w Gateway \<Rightarrow> int \<Rightarrow> jstring \<Rightarrow> FileEntry \<Rightarrow> jstring \<Rightarrow> VirtualFs \<Rightarrow> 'w
     \<Rightarrow> (fs_error + unit) \<times> VirtualFs \<times> 'w \<times> gateway_call list" where
  "writeFileEntry g now key file text fs w =
     (case notion_getPageMeta g (pageId file) w of
        (Inl e, w1) \<Rightarrow> (Inl e, fs, w1, [GetPageMeta (pageId file)])
      | (Inr remoteMeta, w1) \<Rightarrow>
          (let expectedLastEditedTime = meta_lastEditedTime (meta file) in
           if truthy expectedLastEditedTime \<and> pm_lastEditedTime remoteMeta \<noteq> []
              \<and> Some (pm_lastEditedTime remoteMeta) \<noteq> expectedLastEditedTime
           then
             (Inl (ConflictDetected (path file) (pm_lastEditedTime remoteMeta)
                     (case expectedLastEditedTime of None \<Rightarrow> [] | Some t \<Rightarrow> t)),
              fs, w1, [GetPageMeta (pageId file)])
           else
             (case notion_replacePageMarkdown g (pageId file) text w1 of
                (Inl e, w2) \<Rightarrow>
                  (Inl e, fs, w2,
                   [GetPageMeta (pageId file), ReplacePageMarkdown (pageId file) text])
              | (Inr u, w2) \<Rightarrow>
                  (case notion_getPageMeta g (pageId file) w2 of
                     (Inl e, w3) \<Rightarrow>
                       (Inl e, fs, w3,
                        [GetPageMeta (pageId file), ReplacePageMarkdown (pageId file) text,
                         GetPageMeta (pageId file)])
                   | (Inr updatedMeta, w3) \<Rightarrow>
                       (Inr (),
                        fs\<lparr>entries :=
                             AList.update key (File (setFileMeta file updatedMeta)) (entries fs),
                           cache := AList.update (pageId file)
                             \<lparr>markdown = text, fetchedAt = now,
                              cache_lastEditedTime = Some (pm_lastEditedTime updatedMeta)\<rparr>
                             (cache fs)\<rparr>,
                        w3,
                        [GetPageMeta (pageId file), ReplacePageMarkdown (pageId file) text,
                         GetPageMeta (pageId file)])))))"

text \<open>The key under which \<open>ensurePageFile\<close> finds the entry it returns.\<close>

definition pageFileKey :: "VirtualFs \<Rightarrow> jstring \<Rightarrow> jstring \<Rightarrow> jstring" where
  "pageFileKey fs pathInput cwd =
     (let resolved = resolveVirtualPath pathInput cwd in
      case map_of (entries fs) resolved of
        Some (Dir direct) \<Rightarrow> posixJoin [path direct, js ''index.md'']
      | _ \<Rightarrow> resolved)"

definition writeFile ::
  "'w Gateway \<Rightarrow> int \<Rightarrow> jstring \<Rightarrow> jstring \<Rightarrow> jstring \<Rightarrow> VirtualFs \<Rightarrow> 'w
     \<Rightarrow> (fs_error + unit) \<times> VirtualFs \<times> 'w \<times> gateway_call list" where
  "writeFile g now pathInput text cwd fs w =
     (case map_of (entries fs) (resolveVirtualPath pathInput cwd) of
        Some (Db entry) \<Rightarrow> (Inl (CannotWriteToDatabasePlaceholder (path entry)), fs, w, [])
      | _ \<Rightarrow>
          (case ensurePageFile fs pathInput cwd of
             Inl e \<Rightarrow> (Inl e, fs, w, [])
           | Inr file \<Rightarrow>
               writeFileEntry g now (pageFileKey fs pathInput cwd) file text fs w))"

section \<open>The edit session (src/session/shell.ts)\<close>

record EditState =
  edit_path :: jstring
  buffer :: "jstring list"

text \<open>
  The fields of a \<open>ShellSession\<close> that the line handler reads and writes. \<open>written\<close> is
  what has been written to the channel, in order; \<open>isClosed\<close> stands for
  \<open>this.isClosed || this.channel.destroyed\<close>.
\<close>

record ShellSession =
  sessionCwd :: jstring
  editState :: "EditState option"
  written :: "jstring list"
  isClosed :: bool

definition channelWrite :: "jstring \<Rightarrow> ShellSession \<Rightarrow> ShellSession" where
  "channelWrite text sh = (if isClosed sh then sh else sh\<lparr>written := written sh @ [text]\<rparr>)"

definition writeLine :: "jstring \<Rightarrow> ShellSession \<Rightarrow> ShellSession" where
  "writeLine text sh = channelWrite (text @ [13, 10]) sh"

definition promptLabel :: "ShellSession \<Rightarrow> jstring" where
  "promptLabel sh =
     (case editState sh of
        Some st \<Rightarrow> js ''edit> ''
      | None \<Rightarrow> js ''notion:'' @ sessionCwd sh @ js ''$ '')"

definition writePrompt :: "ShellSession \<Rightarrow> ShellSession" where
  "writePrompt sh = channelWrite (promptLabel sh) sh"

definition padStart :: "nat \<Rightarrow> nat \<Rightarrow> jstring \<Rightarrow> jstring" where
  "padStart n c s = replicate (n - length s) c @ s"

fun printLines :: "nat \<Rightarrow> jstring list \<Rightarrow> ShellSession \<Rightarrow> ShellSession" where
  "printLines i [] sh = sh"
| "printLines i (l # ls) sh =
     printLines (i + 1) ls
       (writeLine (padStart 4 (of_char CHR '' '') (showNat (i + 1)) @ js ''  '' @ l) sh)"

definition printEditBuffer :: "ShellSession \<Rightarrow> ShellSession" where
  "printEditBuffer sh =
     (case editState sh of
        None \<Rightarrow> sh
      | Some st \<Rightarrow>
          if length (buffer st) = 0 then writeLine (js ''(empty buffer)'') sh
          else printLines 0 (buffer st) sh)"

text \<open>The character classes \<open>\d\<close> and \<open>.\<close> of the regular expressions.\<close>

definition isDigit :: "nat \<Rightarrow> bool" where
  "isDigit u = (48 \<le> u \<and> u \<le> 57)"

definition isDot :: "nat \<Rightarrow> bool" where
  "isDot u = (u \<noteq> 10 \<and> u \<noteq> 13 \<and> u \<noteq> 8232 \<and> u \<noteq> 8233)"

text \<open>\<open>Number(digits)\<close> for a string of decimal digits.\<close>

definition numberOf :: "jstring \<Rightarrow> nat" where
  "numberOf ds = foldl (\<lambda>n d. 10 * n + (d - 48)) 0 ds"

text \<open>
  \<open>/^:set\s+(\d+)\s+(.*)$/\<close> and \<open>/^:del\s+(\d+)$/\<close>: the two groups, or the one. Each
  greedy quantifier is followed by a class disjoint from its own, or by the end, so the
  match is the greedy one or there is none.
\<close>

definition matchSet :: "jstring \<Rightarrow> (jstring \<times> jstring) option" where
  "matchSet s =
     (if take 4 s \<noteq> js '':set'' then None
      else
        (let r1 = drop 4 s; r2 = dropWhile isSpace r1;
             ds = takeWhile isDigit r2; r3 = dropWhile isDigit r2;
             r4 = dropWhile isSpace r3
         in if takeWhile isSpace r1 = [] \<or> ds = [] \<or> takeWhile isSpace r3 = []
               \<or> \<not> list_all isDot r4
            then None else Some (ds, r4)))"

definition matchDel :: "jstring \<Rightarrow> jstring option" where
  "matchDel s =
     (if take 4 s \<noteq> js '':del'' then None
      else
        (let r1 = drop 4 s; r2 = dropWhile isSpace r1;
             ds = takeWhile isDigit r2; r3 = dropWhile isDigit r2
         in if takeWhile isSpace r1 = [] \<or> ds = [] \<or> r3 \<noteq> [] then None else Some ds))"

definition startsWith :: "jstring \<Rightarrow> jstring \<Rightarrow> bool" where
  "startsWith s pre = (take (length pre) s = pre)"

text \<open>\<open>buffer.splice(index, 1)\<close>.\<close>

definition removeAt :: "nat \<Rightarrow> 'a list \<Rightarrow> 'a list" where
  "removeAt i xs = take i xs @ drop (i + 1) xs"

definition handleEditLine ::
  "'w Gateway \<Rightarrow> int \<Rightarrow> jstring \<Rightarrow> ShellSession \<Rightarrow> VirtualFs \<Rightarrow> 'w
     \<Rightarrow> (fs_error + unit) \<times> ShellSession \<times> VirtualFs \<times> 'w \<times> gateway_call list" where
  "handleEditLine g now line sh fs w =
     (case editState sh of
        None \<Rightarrow> (Inr (), sh, fs, w, [])
      | Some st \<Rightarrow>
          (let trimmed = trim line in
           if trimmed = js '':q!'' then
             (Inr (), writeLine (js ''edit cancelled'') (sh\<lparr>editState := None\<rparr>), fs, w, [])
           else if trimmed = js '':wq'' then
             (let payload = join [newline] (buffer st) in
              case writeFile g now (edit_path st) payload (sessionCwd sh) fs w of
                (Inl e, fs', w', calls) \<Rightarrow> (Inl e, sh, fs', w', calls)
              | (Inr u, fs', w', calls) \<Rightarrow>
                  (Inr (), (writeLine (js ''saved '' @ edit_path st) sh)\<lparr>editState := None\<rparr>,
                   fs', w', calls))
           else if trimmed = js '':p'' then (Inr (), printEditBuffer sh, fs, w, [])
           else if trimmed = js '':clear'' then
             (Inr (), writeLine (js ''buffer cleared'') (sh\<lparr>editState := Some (st\<lparr>buffer := []\<rparr>)\<rparr>),
              fs, w, [])
           else if startsWith trimmed (js '':set '') then
             (case matchSet trimmed of
                None \<Rightarrow> (Inl (UsageError (js ''Usage: :set <line> <text>'')), sh, fs, w, [])
              | Some (ds, text) \<Rightarrow>
                  if numberOf ds < 1 \<or> numberOf ds - 1 \<ge> length (buffer st) then
                    (Inl (LineOutOfRange ds), sh, fs, w, [])
                  else
                    (Inr (),
                     sh\<lparr>editState := Some (st\<lparr>buffer := (buffer st)[numberOf ds - 1 := text]\<rparr>)\<rparr>,
                     fs, w, []))
           else if startsWith trimmed (js '':del '') then
             (case matchDel trimmed of
                None \<Rightarrow> (Inl (UsageError (js ''Usage: :del <line>'')), sh, fs, w, [])
              | Some ds \<Rightarrow>
                  if numberOf ds < 1 \<or> numberOf ds - 1 \<ge> length (buffer st) then
                    (Inl (LineOutOfRange ds), sh, fs, w, [])
                  else
                    (Inr (),
                     sh\<lparr>editState := Some (st\<lparr>buffer := removeAt (numberOf ds - 1) (buffer st)\<rparr>)\<rparr>,
                     fs, w, []))
           else if startsWith trimmed (js '':append '') then
             (Inr (),
              sh\<lparr>editState :=
                   Some (st\<lparr>buffer := buffer st @ [drop (length (js '':append '')) trimmed]\<rparr>)\<rparr>,
              fs, w, [])
           else
             (Inr (), sh\<lparr>editState := Some (st\<lparr>buffer := buffer st @ [line]\<rparr>)\<rparr>, fs, w, [])))"

text \<open>
  \<open>handleLine\<close>. The command dispatcher, which handles a line outside an edit session,
  is a parameter.
\<close>

definition handleLine ::
  "(jstring \<Rightarrow> ShellSession \<Rightarrow> VirtualFs \<Rightarrow> 'w
      \<Rightarrow> (fs_error + unit) \<times> ShellSession \<times> VirtualFs \<times> 'w \<times> gateway_call list)
   \<Rightarrow> 'w Gateway \<Rightarrow> int \<Rightarrow> jstring \<Rightarrow> ShellSession \<Rightarrow> VirtualFs \<Rightarrow> 'w
   \<Rightarrow> ShellSession \<times> VirtualFs \<times> 'w \<times> gateway_call list" where
  "handleLine dispatch g now line sh fs w =
     (case (if editState sh \<noteq> None then handleEditLine g now line sh fs w
            else dispatch line sh fs w) of
        (Inl e, sh', fs', w', calls) \<Rightarrow>
          (writePrompt (writeLine (js ''error: '' @ errorMessage e) sh'), fs', w', calls)
      | (Inr u, sh', fs', w', calls) \<Rightarrow> (writePrompt sh', fs', w', calls))"

section \<open>Refresh coordination (src/vfs/index.ts)\<close>

text \<open>
  \<open>refresh\<close> runs without suspending up to its return: it returns at once, or returns the
  promise in flight, or starts the rebuild (whose first act is the call of
  \<open>listRecords\<close>), stores its promise and returns it.
\<close>

datatype refresh_outcome = ReturnedAtOnce | ReturnedPromiseInFlight | StartedRebuild

definition refresh ::
  "bool \<Rightarrow> int \<Rightarrow> VirtualFs \<Rightarrow> refresh_outcome \<times> VirtualFs \<times> gateway_call list" where
  "refresh force now fs =
     (let refreshIsFresh = (indexedAtLeastOnce fs \<and> now - lastRefreshAt fs < ttlMs fs) in
      if \<not> force \<and> refreshIsFresh then (ReturnedAtOnce, fs, [])
      else if refreshPromise fs then (ReturnedPromiseInFlight, fs, [])
      else (StartedRebuild, fs\<lparr>refreshPromise := True\<rparr>, [ListRecords (rootPageId fs)]))"

text \<open>A run of calls of \<open>refresh\<close>, each with its \<open>force\<close> and its clock.\<close>

fun refreshCalls ::
  "(bool \<times> int) list \<Rightarrow> VirtualFs \<Rightarrow> refresh_outcome list \<times> VirtualFs \<times> gateway_call list" where
  "refreshCalls [] fs = ([], fs, [])"
| "refreshCalls ((force, now) # rest) fs =
     (case refresh force now fs of
        (outcome, fs', calls) \<Rightarrow>
          (case refreshCalls rest fs' of
             (outcomes, fs'', calls') \<Rightarrow> (outcome # outcomes, fs'', calls @ calls')))"

section \<open>An in-memory remote store and a small namespace, for the scenarios\<close>

text \<open>
  A stand-in for the remote store: it keeps each page's text, last-edited stamp and
  owner, and stamps a replaced page with the next tick of its clock.
\<close>

record RemotePage =
  remote_markdown :: jstring
  remote_lastEditedTime :: jstring
  remote_owner :: jstring

record RemoteStore =
  remote_pages :: "(jstring \<times> RemotePage) list"
  remote_clock :: nat

definition memoryGateway :: "RemoteStore Gateway" where
  "memoryGateway =
     \<lparr>notion_listRecords = (\<lambda>root w. (Inr ([], []), w)),
      notion_readPageMarkdown = (\<lambda>pid w.
         case map_of (remote_pages w) pid of
           None \<Rightarrow> (Inl (GatewayFailure (js ''object_not_found'')), w)
         | Some pg \<Rightarrow> (Inr (remote_markdown pg), w)),
      notion_getPageMeta = (\<lambda>pid w.
         case map_of (remote_pages w) pid of
           None \<Rightarrow> (Inl (GatewayFailure (js ''object_not_found'')), w)
         | Some pg \<Rightarrow>
             (Inr \<lparr>pm_lastEditedTime = remote_lastEditedTime pg, pm_owner = remote_owner pg\<rparr>, w)),
      notion_replacePageMarkdown = (\<lambda>pid text w.
         case map_of (remote_pages w) pid of
           None \<Rightarrow> (Inl (GatewayFailure (js ''object_not_found'')), w)
         | Some pg \<Rightarrow>
             (Inr (),
              w\<lparr>remote_pages := AList.update pid
                    (pg\<lparr>remote_markdown := text,
                        remote_lastEditedTime := js ''t'' @ showNat (remote_clock w + 1)\<rparr>)
                    (remote_pages w),
                 remote_clock := remote_clock w + 1\<rparr>)),
      notion_createPage = (\<lambda>t parentId w. (Inl (GatewayFailure (js ''validation_error'')), w))\<rparr>"

definition exampleStore :: RemoteStore where
  "exampleStore =
     \<lparr>remote_pages =
        [(js ''p1'', \<lparr>remote_markdown = js ''v0'', remote_lastEditedTime = js ''t0'',
                     remote_owner = js ''ann''\<rparr>)],
      remote_clock = 0\<rparr>"

definition noMeta :: EntryMeta where
  "noMeta = \<lparr>meta_createdTime = None, meta_lastEditedTime = None, meta_owner = None,
             meta_pageId = None, meta_databaseId = None\<rparr>"

definition docMeta :: EntryMeta where
  "docMeta = \<lparr>meta_createdTime = Some (js ''t0''), meta_lastEditedTime = Some (js ''t0''),
              meta_owner = Some (js ''ann''), meta_pageId = Some (js ''p1''),
              meta_databaseId = None\<rparr>"

definition exampleEntries :: "(jstring \<times> FsEntry) list" where
  "exampleEntries =
     [(js ''/'', Dir \<lparr>name = js ''/'', path = js ''/'', parentPath = js ''/'', meta = noMeta,
                    children = [js ''/pages'']\<rparr>),
      (js ''/pages'', Dir \<lparr>name = js ''pages'', path = js ''/pages'', parentPath = js ''/'',
                    meta = noMeta, children = [js ''/pages/doc'', js ''/pages/[db:d1]'']\<rparr>),
      (js ''/pages/doc'', Dir \<lparr>name = js ''doc'', path = js ''/pages/doc'',
                    parentPath = js ''/pages'', meta = docMeta,
                    children = [js ''/pages/doc/index.md'']\<rparr>),
      (js ''/pages/doc/index.md'', File \<lparr>name = js ''index.md'',
                    path = js ''/pages/doc/index.md'', parentPath = js ''/pages/doc'',
                    meta = docMeta, readonly = False, pageId = js ''p1''\<rparr>),
      (js ''/pages/[db:d1]'', Db \<lparr>name = js ''[db:d1]'', path = js ''/pages/[db:d1]'',
                    parentPath = js ''/pages'',
                    meta = noMeta\<lparr>meta_databaseId := Some (js ''d1'')\<rparr>,
                    databaseId = js ''d1''\<rparr>)]"

definition exampleFs :: VirtualFs where
  "exampleFs =
     \<lparr>entries = exampleEntries, pageDirPathById = [(js ''p1'', js ''/pages/doc'')], cache = [],
      notionPages = [], ttlMs = 30000, rootPageId = None, refreshPromise = False,
      lastRefreshAt = 0, indexedAtLeastOnce = True\<rparr>"

definition docFile :: FileEntry where
  "docFile = \<lparr>name = js ''index.md'', path = js ''/pages/doc/index.md'',
               parentPath = js ''/pages/doc'', meta = docMeta, readonly = False,
               pageId = js ''p1''\<rparr>"

lemmas example_defs = exampleFs_def exampleEntries_def exampleStore_def memoryGateway_def
  docMeta_def noMeta_def docFile_def

lemma ex_resolve1: "resolveVirtualPath (js ''doc'') (js ''/pages'') = js ''/pages/doc''"
  by code_simp

lemma ex_join1: "posixJoin [js ''/pages/doc'', js ''index.md''] = js ''/pages/doc/index.md''"
  by code_simp

lemma ex_ensure: "ensurePageFile exampleFs (js ''doc'') (js ''/pages'') = Inr docFile"
  by code_simp

lemma ex_key: "pageFileKey exampleFs (js ''doc'') (js ''/pages'') = js ''/pages/doc/index.md''"
  by code_simp

section \<open>Reading and writing a file\<close>

lemma ensurePageFile_not_Db:
  "ensurePageFile fs p cwd = Inr fe \<Longrightarrow>
     (case map_of (entries fs) (resolveVirtualPath p cwd) of Some (Db d) \<Rightarrow> False | _ \<Rightarrow> True)"
  by (auto simp: ensurePageFile_def Let_def split: option.splits FsEntry.splits)

lemma readFile_on_file:
  "ensurePageFile fs p cwd = Inr fe \<Longrightarrow>
     readFile g now now' p cwd fs w = readFileEntry g now now' fe fs w"
  using ensurePageFile_not_Db [of fs p cwd fe]
  by (auto simp: readFile_def split: option.splits FsEntry.splits)

lemma writeFile_on_file:
  "ensurePageFile fs p cwd = Inr fe \<Longrightarrow>
     writeFile g now p text cwd fs w
       = writeFileEntry g now (pageFileKey fs p cwd) fe text fs w"
  using ensurePageFile_not_Db [of fs p cwd fe]
  by (auto simp: writeFile_def split: option.splits FsEntry.splits)

subsection \<open>The cache of page texts\<close>

text \<open>
  Claim C8. Let the path resolve to a page file (directly, or as the \<open>index.md\<close> of a
  directory). If the cache has an entry for the file's page id that was fetched less than
  \<open>ttlMs\<close> before the clock \<open>now\<close>, \<open>readFile\<close> returns the cached text, calls the
  gateway not at all and leaves the state as it is. If the entry is absent or expired,
  \<open>readFile\<close> makes the one call \<open>readPageMarkdown\<close> for that page id; when the call
  returns a text, that text is the result and is stored in the cache under the page id
  (with the clock of the store and the timestamp of the file's node), the other cache
  entries and the tree unchanged; when the call fails, the failure is the result and
  nothing is stored.
\<close>

theorem readFile_cache:
  assumes "ensurePageFile fs p cwd = Inr fe"
  shows "(\<forall>cached. map_of (cache fs) (pageId fe) = Some cached
            \<and> now - fetchedAt cached < ttlMs fs \<longrightarrow>
            readFile g now now' p cwd fs w = (Inr (markdown cached), fs, w, []))
       \<and> ((map_of (cache fs) (pageId fe) = None
            \<or> (\<exists>cached. map_of (cache fs) (pageId fe) = Some cached
                  \<and> \<not> now - fetchedAt cached < ttlMs fs)) \<longrightarrow>
           (\<forall>fetched w'. notion_readPageMarkdown g (pageId fe) w = (Inr fetched, w') \<longrightarrow>
              (\<exists>fs'. readFile g now now' p cwd fs w
                        = (Inr fetched, fs', w', [ReadPageMarkdown (pageId fe)])
                   \<and> map_of (cache fs') (pageId fe)
                        = Some \<lparr>markdown = fetched, fetchedAt = now',
                                cache_lastEditedTime = meta_lastEditedTime (meta fe)\<rparr>
                   \<and> (\<forall>k. k \<noteq> pageId fe \<longrightarrow> map_of (cache fs') k = map_of (cache fs) k)
                   \<and> entries fs' = entries fs))
           \<and> (\<forall>e w'. notion_readPageMarkdown g (pageId fe) w = (Inl e, w') \<longrightarrow>
                readFile g now now' p cwd fs w
                  = (Inl e, fs, w', [ReadPageMarkdown (pageId fe)])))"
  unfolding readFile_on_file [OF assms]
  by (auto simp: readFileEntry_def update_conv' split: option.splits sum.splits prod.splits)

definition cachedFs :: VirtualFs where
  "cachedFs = exampleFs\<lparr>cache :=
     [(js ''p1'', \<lparr>markdown = js ''cached text'', fetchedAt = 100,
                  cache_lastEditedTime = Some (js ''t0'')\<rparr>)]\<rparr>"

lemma cached_ensure: "ensurePageFile cachedFs (js ''doc'') (js ''/pages'') = Inr docFile"
  by code_simp

lemma example_fetch:
  "notion_readPageMarkdown memoryGateway (js ''p1'') exampleStore = (Inr (js ''v0''), exampleStore)"
  by code_simp

theorem readFile_cache_witness:
  "ensurePageFile cachedFs (js ''doc'') (js ''/pages'') = Inr docFile
   \<and> readFile memoryGateway 200 201 (js ''doc'') (js ''/pages'') cachedFs exampleStore
       = (Inr (js ''cached text''), cachedFs, exampleStore, [])
   \<and> (\<exists>fs'. readFile memoryGateway 30100 30101 (js ''doc'') (js ''/pages'') cachedFs exampleStore
               = (Inr (js ''v0''), fs', exampleStore, [ReadPageMarkdown (js ''p1'')])
             \<and> map_of (cache fs') (js ''p1'')
                 = Some \<lparr>markdown = js ''v0'', fetchedAt = 30101,
                         cache_lastEditedTime = Some (js ''t0'')\<rparr>)
   \<and> (\<exists>fs'. readFile memoryGateway 200 201 (js ''doc'') (js ''/pages'') exampleFs exampleStore
               = (Inr (js ''v0''), fs', exampleStore, [ReadPageMarkdown (js ''p1'')])
             \<and> map_of (cache fs') (js ''p1'')
                 = Some \<lparr>markdown = js ''v0'', fetchedAt = 201,
                         cache_lastEditedTime = Some (js ''t0'')\<rparr>)"
proof -
  have pid: "pageId docFile = js ''p1''"
    and loc: "meta_lastEditedTime (meta docFile) = Some (js ''t0'')"
    by (simp_all add: docFile_def docMeta_def)
  have c: "map_of (cache cachedFs) (js ''p1'')
      = Some \<lparr>markdown = js ''cached text'', fetchedAt = 100, cache_lastEditedTime = Some (js ''t0'')\<rparr>"
    and ttl: "ttlMs cachedFs = 30000"
    and c0: "map_of (cache exampleFs) (js ''p1'') = None"
    by (simp_all add: cachedFs_def exampleFs_def)
  have a: "readFile memoryGateway 200 201 (js ''doc'') (js ''/pages'') cachedFs exampleStore
       = (Inr (js ''cached text''), cachedFs, exampleStore, [])"
    using readFile_cache [OF cached_ensure, of 200 memoryGateway 201 exampleStore] pid c ttl
    by simp
  have b: "\<exists>fs'. readFile memoryGateway 30100 30101 (js ''doc'') (js ''/pages'') cachedFs exampleStore
               = (Inr (js ''v0''), fs', exampleStore, [ReadPageMarkdown (js ''p1'')])
             \<and> map_of (cache fs') (js ''p1'')
                 = Some \<lparr>markdown = js ''v0'', fetchedAt = 30101,
                         cache_lastEditedTime = Some (js ''t0'')\<rparr>"
    using readFile_cache [OF cached_ensure, of 30100 memoryGateway 30101 exampleStore]
      pid loc c ttl example_fetch
    by auto
  have d: "\<exists>fs'. readFile memoryGateway 200 201 (js ''doc'') (js ''/pages'') exampleFs exampleStore
               = (Inr (js ''v0''), fs', exampleStore, [ReadPageMarkdown (js ''p1'')])
             \<and> map_of (cache fs') (js ''p1'')
                 = Some \<lparr>markdown = js ''v0'', fetchedAt = 201,
                         cache_lastEditedTime = Some (js ''t0'')\<rparr>"
    using readFile_cache [OF ex_ensure, of 200 memoryGateway 201 exampleStore]
      pid loc c0 example_fetch
    by auto
  from cached_ensure a b d show ?thesis by blast
qed

subsection \<open>The conflict check of a write\<close>

lemma writeFileEntry_first_call:
  "\<exists>r fs' w' rest. writeFileEntry g now key fe text fs w
      = (r, fs', w', GetPageMeta (pageId fe) # rest)"
  by (auto simp: writeFileEntry_def Let_def split: prod.splits sum.splits)

text \<open>
  Claim C1, as the code has it. Let the path resolve to a page file. The first gateway
  call of \<open>writeFile\<close> is \<open>getPageMeta\<close> for the file's page id. The timestamp it
  returns is compared with the timestamp recorded on the file's node of this
  \<open>VirtualFs\<close> (set by the rebuild that made the node, or by the last write through this
  \<open>VirtualFs\<close>): when both are non-empty and they differ, the write fails with the conflict
  error that names the path, the remote and the local timestamp; \<open>getPageMeta\<close> is then
  the only gateway call (no replacement), and the \<open>VirtualFs\<close> is unchanged. When the node
  has no timestamp, or the remote one is empty, or the two are equal, the write goes on to
  \<open>replacePageMarkdown\<close>. So a writer whose \<open>VirtualFs\<close> still records the timestamp
  from before another writer's commit fails, provided the remote timestamp has changed.
\<close>

theorem writeFile_conflict_check:
  assumes "ensurePageFile fs p cwd = Inr fe"
  shows "(\<exists>r fs' w' rest. writeFile g now p text cwd fs w
             = (r, fs', w', GetPageMeta (pageId fe) # rest))
       \<and> (\<forall>remoteMeta w1 loc.
             notion_getPageMeta g (pageId fe) w = (Inr remoteMeta, w1)
             \<and> meta_lastEditedTime (meta fe) = Some loc \<and> loc \<noteq> []
             \<and> pm_lastEditedTime remoteMeta \<noteq> [] \<and> pm_lastEditedTime remoteMeta \<noteq> loc
             \<longrightarrow> writeFile g now p text cwd fs w
                   = (Inl (ConflictDetected (path fe) (pm_lastEditedTime remoteMeta) loc),
                      fs, w1, [GetPageMeta (pageId fe)]))
       \<and> (\<forall>remoteMeta w1.
             notion_getPageMeta g (pageId fe) w = (Inr remoteMeta, w1)
             \<and> (\<not> truthy (meta_lastEditedTime (meta fe)) \<or> pm_lastEditedTime remoteMeta = []
                  \<or> Some (pm_lastEditedTime remoteMeta) = meta_lastEditedTime (meta fe))
             \<longrightarrow> (\<exists>r fs' w' rest. writeFile g now p text cwd fs w
                   = (r, fs', w',
                      GetPageMeta (pageId fe) # ReplacePageMarkdown (pageId fe) text # rest)))"
  unfolding writeFile_on_file [OF assms]
proof (intro conjI allI impI)
  show "\<exists>r fs' w' rest. writeFileEntry g now (pageFileKey fs p cwd) fe text fs w
      = (r, fs', w', GetPageMeta (pageId fe) # rest)"
    by (rule writeFileEntry_first_call)
next
  fix remoteMeta w1 loc
  assume "notion_getPageMeta g (pageId fe) w = (Inr remoteMeta, w1)
             \<and> meta_lastEditedTime (meta fe) = Some loc \<and> loc \<noteq> []
             \<and> pm_lastEditedTime remoteMeta \<noteq> [] \<and> pm_lastEditedTime remoteMeta \<noteq> loc"
  then show "writeFileEntry g now (pageFileKey fs p cwd) fe text fs w
       = (Inl (ConflictDetected (path fe) (pm_lastEditedTime remoteMeta) loc),
                      fs, w1, [GetPageMeta (pageId fe)])"
    by (simp add: writeFileEntry_def truthy_def)
next
  fix remoteMeta w1
  assume "notion_getPageMeta g (pageId fe) w = (Inr remoteMeta, w1)
             \<and> (\<not> truthy (meta_lastEditedTime (meta fe)) \<or> pm_lastEditedTime remoteMeta = []
                  \<or> Some (pm_lastEditedTime remoteMeta) = meta_lastEditedTime (meta fe))"
  then show "\<exists>r fs' w' rest. writeFileEntry g now (pageFileKey fs p cwd) fe text fs w
                   = (r, fs', w',
                      GetPageMeta (pageId fe) # ReplacePageMarkdown (pageId fe) text # rest)"
    by (auto simp: writeFileEntry_def Let_def split: prod.splits sum.splits)
qed

text \<open>
  The store after a writer A has replaced the page through a \<open>VirtualFs\<close> of its own.
\<close>

definition storeAfterA :: RemoteStore where
  "storeAfterA =
     snd (notion_replacePageMarkdown memoryGateway (js ''p1'') (js ''text of A'') exampleStore)"

lemma storeAfterA_meta:
  "notion_getPageMeta memoryGateway (js ''p1'') storeAfterA
     = (Inr \<lparr>pm_lastEditedTime = js ''t1'', pm_owner = js ''ann''\<rparr>, storeAfterA)"
  by code_simp

theorem writeFile_conflict_check_witness:
  "ensurePageFile exampleFs (js ''doc'') (js ''/pages'') = Inr docFile
   \<and> writeFile memoryGateway 5 (js ''doc'') (js ''text of B'') (js ''/pages'') exampleFs storeAfterA
       = (Inl (ConflictDetected (js ''/pages/doc/index.md'') (js ''t1'') (js ''t0'')),
          exampleFs, storeAfterA, [GetPageMeta (js ''p1'')])
   \<and> (\<exists>r fs' w' rest.
         writeFile memoryGateway 5 (js ''doc'') (js ''text of A'') (js ''/pages'') exampleFs exampleStore
           = (r, fs', w', GetPageMeta (js ''p1'') # ReplacePageMarkdown (js ''p1'') (js ''text of A'') # rest))"
proof -
  have e: "ensurePageFile exampleFs (js ''doc'') (js ''/pages'') = Inr docFile" by (rule ex_ensure)
  have m0: "notion_getPageMeta memoryGateway (js ''p1'') exampleStore
     = (Inr \<lparr>pm_lastEditedTime = js ''t0'', pm_owner = js ''ann''\<rparr>, exampleStore)"
    by code_simp
  have pid: "pageId docFile = js ''p1''" and pth: "path docFile = js ''/pages/doc/index.md''"
    and loc: "meta_lastEditedTime (meta docFile) = Some (js ''t0'')"
    by (simp_all add: docFile_def docMeta_def)
  note t = writeFile_conflict_check [OF e, of memoryGateway]
  from t [of 5 "js ''text of B''" storeAfterA] storeAfterA_meta pid pth loc
  have c1: "writeFile memoryGateway 5 (js ''doc'') (js ''text of B'') (js ''/pages'') exampleFs storeAfterA
       = (Inl (ConflictDetected (js ''/pages/doc/index.md'') (js ''t1'') (js ''t0'')),
          exampleFs, storeAfterA, [GetPageMeta (js ''p1'')])"
    by simp
  from t [of 5 "js ''text of A''" exampleStore] m0 pid loc
  have c2: "\<exists>r fs' w' rest.
         writeFile memoryGateway 5 (js ''doc'') (js ''text of A'') (js ''/pages'') exampleFs exampleStore
           = (r, fs', w', GetPageMeta (js ''p1'') # ReplacePageMarkdown (js ''p1'') (js ''text of A'') # rest)"
    by simp
  from e c1 c2 show ?thesis by blast
qed

text \<open>
  Claim C1 as stated fails where the two writers share one \<open>VirtualFs\<close>, as the sessions
  of one server do. B reads the page (text \<open>v0\<close>, timestamp \<open>t0\<close>); A writes, which
  succeeds and records the new remote timestamp on the shared node; B then writes a text
  made from what it read. The check compares the remote timestamp with the one A's write
  recorded, finds them equal, and B's write replaces A's text without a conflict.
\<close>

theorem second_writer_overwrites:
  "(case readFile memoryGateway 0 0 (js ''doc'') (js ''/pages'') exampleFs exampleStore of
      (seenByB, fs1, w1, calls1) \<Rightarrow>
        (case writeFile memoryGateway 1 (js ''doc'') (js ''text of A'') (js ''/pages'') fs1 w1 of
           (resultA, fs2, w2, calls2) \<Rightarrow>
             (case writeFile memoryGateway 2 (js ''doc'') (js ''text of B'') (js ''/pages'') fs2 w2 of
                (resultB, fs3, w3, calls3) \<Rightarrow>
                  seenByB = Inr (js ''v0'') \<and> resultA = Inr () \<and> resultB = Inr ()
                  \<and> calls3 = [GetPageMeta (js ''p1''),
                               ReplacePageMarkdown (js ''p1'') (js ''text of B''),
                               GetPageMeta (js ''p1'')]
                  \<and> map_option remote_markdown (map_of (remote_pages w2) (js ''p1''))
                      = Some (js ''text of A'')
                  \<and> map_option remote_markdown (map_of (remote_pages w3) (js ''p1''))
                      = Some (js ''text of B''))))"
  by code_simp

section \<open>Committing an edit session\<close>

lemma handleLine_commit_failure:
  assumes "editState sh = Some st" and "trim line = js '':wq''"
    and "writeFile g now (edit_path st) (join [newline] (buffer st)) (sessionCwd sh) fs w
              = (Inl e, fs', w', calls)"
  shows "handleLine dispatch g now line sh fs w
           = (writePrompt (writeLine (js ''error: '' @ errorMessage e) sh), fs', w', calls)"
    and "editState (fst (handleLine dispatch g now line sh fs w)) = Some st"
  using assms
  by (auto simp: handleLine_def handleEditLine_def Let_def writePrompt_def writeLine_def
      channelWrite_def)

lemma handleLine_commit_success:
  assumes "editState sh = Some st" and "trim line = js '':wq''"
    and "writeFile g now (edit_path st) (join [newline] (buffer st)) (sessionCwd sh) fs w
              = (Inr u, fs', w', calls)"
  shows "handleLine dispatch g now line sh fs w
           = (writePrompt ((writeLine (js ''saved '' @ edit_path st) sh)\<lparr>editState := None\<rparr>),
              fs', w', calls)"
    and "editState (fst (handleLine dispatch g now line sh fs w)) = None"
  using assms
  by (auto simp: handleLine_def handleEditLine_def Let_def writePrompt_def writeLine_def
      channelWrite_def)

text \<open>
  Claim C2, as the code has it. In an edit session, the line \<open>:wq\<close> (after trimming)
  joins the buffer's lines with line feeds and calls \<open>writeFile\<close> with the session's path
  and current directory. When the write succeeds, \<open>saved PATH\<close> is written and the session
  leaves edit mode. When the write fails (a conflict or any other error), the error reaches
  \<open>handleLine\<close>, which writes \<open>error: MESSAGE\<close>; the session stays in edit mode with its
  buffer as it was.
\<close>

theorem commit_leaves_edit_mode_on_success_only:
  assumes "editState sh = Some st" and "trim line = js '':wq''"
  shows "(\<forall>e fs' w' calls.
            writeFile g now (edit_path st) (join [newline] (buffer st)) (sessionCwd sh) fs w
              = (Inl e, fs', w', calls)
            \<longrightarrow> handleLine dispatch g now line sh fs w
                  = (writePrompt (writeLine (js ''error: '' @ errorMessage e) sh), fs', w', calls)
                \<and> editState (fst (handleLine dispatch g now line sh fs w)) = Some st)
       \<and> (\<forall>u fs' w' calls.
            writeFile g now (edit_path st) (join [newline] (buffer st)) (sessionCwd sh) fs w
              = (Inr u, fs', w', calls)
            \<longrightarrow> handleLine dispatch g now line sh fs w
                  = (writePrompt ((writeLine (js ''saved '' @ edit_path st) sh)\<lparr>editState := None\<rparr>),
                     fs', w', calls)
                \<and> editState (fst (handleLine dispatch g now line sh fs w)) = None)"
  using assms
  by (auto simp: handleLine_def handleEditLine_def Let_def writePrompt_def writeLine_def
      channelWrite_def)

definition docEdit :: EditState where
  "docEdit = \<lparr>edit_path = js ''/pages/doc/index.md'', buffer = [js ''v0'', js ''more'']\<rparr>"

definition editingDoc :: ShellSession where
  "editingDoc =
     \<lparr>sessionCwd = js ''/pages'', editState = Some docEdit, written = [], isClosed = False\<rparr>"

definition noDispatch ::
  "jstring \<Rightarrow> ShellSession \<Rightarrow> VirtualFs \<Rightarrow> RemoteStore
     \<Rightarrow> (fs_error + unit) \<times> ShellSession \<times> VirtualFs \<times> RemoteStore \<times> gateway_call list" where
  "noDispatch l sh fs w = (Inr (), sh, fs, w, [])"

lemma trim_wq: "trim (js '':wq'') = js '':wq''"
  by code_simp

lemma docEdit_conflict:
  "writeFile memoryGateway 5 (edit_path docEdit) (join [newline] (buffer docEdit))
      (sessionCwd editingDoc) exampleFs storeAfterA
   = (Inl (ConflictDetected (js ''/pages/doc/index.md'') (js ''t1'') (js ''t0'')),
      exampleFs, storeAfterA, [GetPageMeta (js ''p1'')])"
  by code_simp

lemma docEdit_saved:
  "fst (writeFile memoryGateway 5 (edit_path docEdit) (join [newline] (buffer docEdit))
      (sessionCwd editingDoc) exampleFs exampleStore) = Inr ()"
  by code_simp

theorem commit_leaves_edit_mode_on_success_only_witness:
  "editState editingDoc = Some docEdit \<and> trim (js '':wq'') = js '':wq''
   \<and> editState (fst (handleLine noDispatch memoryGateway 5 (js '':wq'') editingDoc exampleFs
          storeAfterA)) = Some docEdit
   \<and> editState (fst (handleLine noDispatch memoryGateway 5 (js '':wq'') editingDoc exampleFs
          exampleStore)) = None"
proof -
  have e: "editState editingDoc = Some docEdit" by (simp add: editingDoc_def)
  obtain fs' w' calls where s:
    "writeFile memoryGateway 5 (edit_path docEdit) (join [newline] (buffer docEdit))
      (sessionCwd editingDoc) exampleFs exampleStore = (Inr (), fs', w', calls)"
    using docEdit_saved
    by (cases "writeFile memoryGateway 5 (edit_path docEdit) (join [newline] (buffer docEdit))
      (sessionCwd editingDoc) exampleFs exampleStore") auto
  note t = commit_leaves_edit_mode_on_success_only [OF e trim_wq, of memoryGateway 5 exampleFs _ noDispatch]
  have f: "editState (fst (handleLine noDispatch memoryGateway 5 (js '':wq'') editingDoc exampleFs
          storeAfterA)) = Some docEdit"
    using t [of storeAfterA] docEdit_conflict by blast
  have g: "editState (fst (handleLine noDispatch memoryGateway 5 (js '':wq'') editingDoc exampleFs
          exampleStore)) = None"
    using t [of exampleStore] s by blast
  from e trim_wq f g show ?thesis by blast
qed

text \<open>
  Claim C2 as stated fails: a commit that meets a conflict does not leave edit mode. The
  session below commits while the remote page carries a newer timestamp; after the line
  the edit state is the one before it, the error has been written and the next prompt is
  the edit prompt.
\<close>

theorem commit_conflict_stays_in_edit_mode:
  "(case handleLine noDispatch memoryGateway 5 (js '':wq'') editingDoc exampleFs storeAfterA of
      (sh', fs', w', calls) \<Rightarrow>
        editState sh' = Some docEdit
        \<and> promptLabel sh' = js ''edit> ''
        \<and> written sh' =
            [js ''error: '' @ errorMessage
               (ConflictDetected (js ''/pages/doc/index.md'') (js ''t1'') (js ''t0'')) @ [13, 10],
             js ''edit> '']
        \<and> calls = [GetPageMeta (js ''p1'')])"
proof -
  have e: "editState editingDoc = Some docEdit" by (simp add: editingDoc_def)
  show ?thesis
    unfolding handleLine_commit_failure(1) [OF e trim_wq docEdit_conflict]
    by (simp add: writePrompt_def writeLine_def channelWrite_def promptLabel_def editingDoc_def)
qed

section \<open>Single-flight refresh\<close>

lemma refresh_in_flight:
  "refreshPromise fs \<Longrightarrow>
     refresh force now fs =
       (if \<not> force \<and> indexedAtLeastOnce fs \<and> now - lastRefreshAt fs < ttlMs fs
        then ReturnedAtOnce else ReturnedPromiseInFlight, fs, [])"
  by (simp add: refresh_def)

lemma refreshCalls_in_flight:
  "refreshPromise fs \<Longrightarrow>
     refreshCalls cs fs =
       (map (\<lambda>(force, now).
               if \<not> force \<and> indexedAtLeastOnce fs \<and> now - lastRefreshAt fs < ttlMs fs
               then ReturnedAtOnce else ReturnedPromiseInFlight) cs,
        fs, [])"
  by (induction cs) (auto simp: refresh_in_flight)

text \<open>
  Claim C9, as the code has it. A call of \<open>refresh\<close> that finds no rebuild in flight, and
  is forced or finds the index not fresh, starts a rebuild: it makes the one call
  \<open>listRecords\<close> and stores the promise. Of any further calls made while that rebuild is in
  flight, each returns at once when it is not forced and the index is fresh, and returns
  the promise in flight otherwise; none changes the state or calls the gateway. So the
  calls made during one rebuild, however many, add no listing pass to the one that the
  rebuild made.
\<close>

theorem refresh_single_flight:
  "\<not> refreshPromise fs \<and> (force \<or> \<not> (indexedAtLeastOnce fs \<and> now - lastRefreshAt fs < ttlMs fs))
   \<longrightarrow> refresh force now fs
         = (StartedRebuild, fs\<lparr>refreshPromise := True\<rparr>, [ListRecords (rootPageId fs)])
       \<and> refreshCalls cs (fs\<lparr>refreshPromise := True\<rparr>)
         = (map (\<lambda>(force', now').
                  if \<not> force' \<and> indexedAtLeastOnce fs \<and> now' - lastRefreshAt fs < ttlMs fs
                  then ReturnedAtOnce else ReturnedPromiseInFlight) cs,
            fs\<lparr>refreshPromise := True\<rparr>, [])"
  using refreshCalls_in_flight [of "fs\<lparr>refreshPromise := True\<rparr>" cs]
  by (auto simp: refresh_def)

theorem refresh_single_flight_witness:
  "\<not> refreshPromise exampleFs
   \<and> refresh True 10 exampleFs
        = (StartedRebuild, exampleFs\<lparr>refreshPromise := True\<rparr>, [ListRecords None])
   \<and> refreshCalls [(False, 40000), (True, 40001), (False, 40002)]
        (exampleFs\<lparr>refreshPromise := True\<rparr>)
        = ([ReturnedPromiseInFlight, ReturnedPromiseInFlight, ReturnedPromiseInFlight],
           exampleFs\<lparr>refreshPromise := True\<rparr>, [])"
  using refresh_single_flight
    [of exampleFs True 10 "[(False, 40000), (True, 40001), (False, 40002)]"]
  by (simp add: exampleFs_def)

text \<open>
  Claim C9 as stated fails for a call that is not forced while the index is fresh: with a
  (forced) rebuild in flight, such a call returns at once instead of returning the promise
  in flight.
\<close>

theorem fresh_call_is_no_follower:
  "refreshPromise (exampleFs\<lparr>refreshPromise := True\<rparr>)
   \<and> refresh False 10 (exampleFs\<lparr>refreshPromise := True\<rparr>)
       = (ReturnedAtOnce, exampleFs\<lparr>refreshPromise := True\<rparr>, [])"
  by (simp add: refresh_def exampleFs_def)

section \<open>Directories and placeholders as targets of a read or a write\<close>

text \<open>
  Claim C10, as the code has it. When the path resolves to a directory whose
  \<open>index.md\<close> path holds a file entry, \<open>readFile\<close> and \<open>writeFile\<close> do what they do
  for that file entry. When the path resolves to a directory whose \<open>index.md\<close> path
  holds no file entry, both fail with \<open>File does not exist\<close> for the resolved path, without
  a gateway call. When the path resolves to a database placeholder, \<open>writeFile\<close> fails
  with \<open>Cannot write to database placeholder\<close>, and \<open>readFile\<close> does not fail: it returns
  the fixed placeholder text.
\<close>

theorem directory_and_placeholder_targets:
  "(\<forall>d. map_of (entries fs) (resolveVirtualPath p dir) = Some (Dir d) \<longrightarrow>
      (\<forall>f. map_of (entries fs) (posixJoin [path d, js ''index.md'']) = Some (File f) \<longrightarrow>
         readFile g now now' p dir fs w = readFileEntry g now now' f fs w
         \<and> writeFile g now p text dir fs w
             = writeFileEntry g now (posixJoin [path d, js ''index.md'']) f text fs w)
      \<and> ((\<forall>f. map_of (entries fs) (posixJoin [path d, js ''index.md'']) \<noteq> Some (File f)) \<longrightarrow>
         readFile g now now' p dir fs w
           = (Inl (FileDoesNotExist (resolveVirtualPath p dir)), fs, w, [])
         \<and> writeFile g now p text dir fs w
           = (Inl (FileDoesNotExist (resolveVirtualPath p dir)), fs, w, [])))
   \<and> (\<forall>e. map_of (entries fs) (resolveVirtualPath p dir) = Some (Db e) \<longrightarrow>
         readFile g now now' p dir fs w = (Inr (placeholderText (databaseId e)), fs, w, [])
         \<and> writeFile g now p text dir fs w
             = (Inl (CannotWriteToDatabasePlaceholder (path e)), fs, w, []))"
  by (auto simp: readFile_def writeFile_def ensurePageFile_def pageFileKey_def Let_def
      split: option.splits FsEntry.splits)

lemma ex_resolve_pages: "resolveVirtualPath (js ''.'') (js ''/pages'') = js ''/pages''"
  by code_simp

lemma ex_resolve_db: "resolveVirtualPath (js ''[db:d1]'') (js ''/pages'') = js ''/pages/[db:d1]''"
  by code_simp

lemma ex_join_pages: "posixJoin [js ''/pages'', js ''index.md''] = js ''/pages/index.md''"
  by code_simp

definition docDir :: DirEntry where
  "docDir = \<lparr>name = js ''doc'', path = js ''/pages/doc'', parentPath = js ''/pages'',
              meta = docMeta, children = [js ''/pages/doc/index.md'']\<rparr>"

definition pagesDir :: DirEntry where
  "pagesDir = \<lparr>name = js ''pages'', path = js ''/pages'', parentPath = js ''/'',
                meta = noMeta, children = [js ''/pages/doc'', js ''/pages/[db:d1]'']\<rparr>"

definition dbEntry :: DbPlaceholderEntry where
  "dbEntry = \<lparr>name = js ''[db:d1]'', path = js ''/pages/[db:d1]'', parentPath = js ''/pages'',
               meta = noMeta\<lparr>meta_databaseId := Some (js ''d1'')\<rparr>, databaseId = js ''d1''\<rparr>"

lemma ex_lookup:
  "map_of (entries exampleFs) (js ''/pages/doc'') = Some (Dir docDir)"
  "map_of (entries exampleFs) (js ''/pages/doc/index.md'') = Some (File docFile)"
  "map_of (entries exampleFs) (js ''/pages'') = Some (Dir pagesDir)"
  "map_of (entries exampleFs) (js ''/pages/index.md'') = None"
  "map_of (entries exampleFs) (js ''/pages/[db:d1]'') = Some (Db dbEntry)"
  by (simp_all add: example_defs docDir_def pagesDir_def dbEntry_def)

theorem directory_and_placeholder_targets_witness:
  "map_of (entries exampleFs) (resolveVirtualPath (js ''doc'') (js ''/pages'')) = Some (Dir docDir)
   \<and> map_of (entries exampleFs) (posixJoin [path docDir, js ''index.md'']) = Some (File docFile)
   \<and> readFile memoryGateway 0 1 (js ''doc'') (js ''/pages'') exampleFs exampleStore
       = readFileEntry memoryGateway 0 1 docFile exampleFs exampleStore
   \<and> writeFile memoryGateway 0 (js ''doc'') (js ''new'') (js ''/pages'') exampleFs exampleStore
       = writeFileEntry memoryGateway 0 (js ''/pages/doc/index.md'') docFile (js ''new'')
           exampleFs exampleStore
   \<and> map_of (entries exampleFs) (resolveVirtualPath (js ''.'') (js ''/pages'')) = Some (Dir pagesDir)
   \<and> readFile memoryGateway 0 1 (js ''.'') (js ''/pages'') exampleFs exampleStore
       = (Inl (FileDoesNotExist (js ''/pages'')), exampleFs, exampleStore, [])
   \<and> writeFile memoryGateway 0 (js ''.'') (js ''new'') (js ''/pages'') exampleFs exampleStore
       = (Inl (FileDoesNotExist (js ''/pages'')), exampleFs, exampleStore, [])
   \<and> map_of (entries exampleFs) (resolveVirtualPath (js ''[db:d1]'') (js ''/pages''))
       = Some (Db dbEntry)
   \<and> writeFile memoryGateway 0 (js ''[db:d1]'') (js ''new'') (js ''/pages'') exampleFs exampleStore
       = (Inl (CannotWriteToDatabasePlaceholder (js ''/pages/[db:d1]'')), exampleFs, exampleStore, [])"
proof -
  have p1: "path docDir = js ''/pages/doc''" and p2: "path pagesDir = js ''/pages''"
    and p3: "path dbEntry = js ''/pages/[db:d1]''"
    by (simp_all add: docDir_def pagesDir_def dbEntry_def)
  note t = directory_and_placeholder_targets [of exampleFs _ "js ''/pages''" memoryGateway 0 1 exampleStore]
  have a: "readFile memoryGateway 0 1 (js ''doc'') (js ''/pages'') exampleFs exampleStore
       = readFileEntry memoryGateway 0 1 docFile exampleFs exampleStore
   \<and> writeFile memoryGateway 0 (js ''doc'') (js ''new'') (js ''/pages'') exampleFs exampleStore
       = writeFileEntry memoryGateway 0 (js ''/pages/doc/index.md'') docFile (js ''new'')
           exampleFs exampleStore"
    using t [of "js ''doc''" "js ''new''"] ex_lookup(1,2) p1
    unfolding ex_resolve1 ex_join1 by (metis ex_join1)
  have b: "readFile memoryGateway 0 1 (js ''.'') (js ''/pages'') exampleFs exampleStore
       = (Inl (FileDoesNotExist (js ''/pages'')), exampleFs, exampleStore, [])
   \<and> writeFile memoryGateway 0 (js ''.'') (js ''new'') (js ''/pages'') exampleFs exampleStore
       = (Inl (FileDoesNotExist (js ''/pages'')), exampleFs, exampleStore, [])"
    using t [of "js ''.''" "js ''new''"] ex_lookup(3,4) p2
    unfolding ex_resolve_pages by (metis ex_join_pages option.distinct(1))
  have c: "writeFile memoryGateway 0 (js ''[db:d1]'') (js ''new'') (js ''/pages'') exampleFs exampleStore
       = (Inl (CannotWriteToDatabasePlaceholder (js ''/pages/[db:d1]'')), exampleFs, exampleStore, [])"
    using t [of "js ''[db:d1]''" "js ''new''"] ex_lookup(5) p3
    unfolding ex_resolve_db by metis
  have l1: "map_of (entries exampleFs) (resolveVirtualPath (js ''doc'') (js ''/pages'')) = Some (Dir docDir)"
    unfolding ex_resolve1 by (rule ex_lookup(1))
  have l2: "map_of (entries exampleFs) (posixJoin [path docDir, js ''index.md'']) = Some (File docFile)"
    unfolding p1 ex_join1 by (rule ex_lookup(2))
  have l3: "map_of (entries exampleFs) (resolveVirtualPath (js ''.'') (js ''/pages'')) = Some (Dir pagesDir)"
    unfolding ex_resolve_pages by (rule ex_lookup(3))
  have l4: "map_of (entries exampleFs) (resolveVirtualPath (js ''[db:d1]'') (js ''/pages''))
       = Some (Db dbEntry)"
    unfolding ex_resolve_db by (rule ex_lookup(5))
  from a b c l1 l2 l3 l4 show ?thesis by blast
qed

text \<open>
  Claim C10 as stated fails for \<open>readFile\<close> on a placeholder: the read returns the
  placeholder text, not a read-only error.
\<close>

theorem read_of_placeholder_succeeds:
  "readFile memoryGateway 0 1 (js ''[db:d1]'') (js ''/pages'') exampleFs exampleStore
     = (Inr (js ''# Database Placeholder'' @ [10, 10] @ js ''[db:d1]'' @ [10, 10]
             @ js ''Database mounting is disabled in MVP.''),
        exampleFs, exampleStore, [])"
  by code_simp

section \<open>Building the namespace (src/vfs/index.ts, refresh)\<close>

definition rootDir :: DirEntry where
  "rootDir = \<lparr>name = js ''/'', path = js ''/'', parentPath = js ''/'',
     meta = \<lparr>meta_createdTime = None, meta_lastEditedTime = None, meta_owner = None,
             meta_pageId = None, meta_databaseId = None\<rparr>,
     children = [js ''/pages'']\<rparr>"

definition pagesRootDir :: DirEntry where
  "pagesRootDir = \<lparr>name = js ''pages'', path = js ''/pages'', parentPath = js ''/'',
     meta = \<lparr>meta_createdTime = None, meta_lastEditedTime = None, meta_owner = None,
             meta_pageId = None, meta_databaseId = None\<rparr>,
     children = []\<rparr>"

definition reset :: "VirtualFs \<Rightarrow> VirtualFs" where
  "reset fs =
     fs\<lparr>entries := [(js ''/'', Dir rootDir), (js ''/pages'', Dir pagesRootDir)],
        pageDirPathById := [], notionPages := []\<rparr>"

definition ensureParentDir :: "VirtualFs \<Rightarrow> jstring \<Rightarrow> fs_error + DirEntry" where
  "ensureParentDir fs parentPath' =
     (case map_of (entries fs) parentPath' of
        Some (Dir entry) \<Rightarrow> Inr entry
      | _ \<Rightarrow> Inl (ParentDirectoryMissing parentPath'))"

text \<open>
  The two statements that end \<open>addDir\<close>, \<open>addPageFile\<close> and \<open>addDbPlaceholder\<close>:
  \<open>this.entries.set(pathname, entry); parent.children.add(pathname)\<close>. The parent is the
  object read from the map before the \<open>set\<close>; when the new entry takes the parent's own
  key, the object that gains the child is no longer in the map.
\<close>

definition attach ::
  "jstring \<Rightarrow> FsEntry \<Rightarrow> jstring \<Rightarrow> DirEntry \<Rightarrow> (jstring \<times> FsEntry) list
     \<Rightarrow> (jstring \<times> FsEntry) list" where
  "attach pathname entry parentPath' parent' es =
     (let es1 = AList.update pathname entry es in
      if pathname = parentPath' then es1
      else AList.update parentPath'
             (Dir (parent'\<lparr>children := setAdd pathname (children parent')\<rparr>)) es1)"

definition addDir ::
  "jstring \<Rightarrow> jstring \<Rightarrow> jstring \<Rightarrow> EntryMeta \<Rightarrow> VirtualFs \<Rightarrow> fs_error + VirtualFs" where
  "addDir pathname name' parentPath' meta' fs =
     (case ensureParentDir fs parentPath' of
        Inl e \<Rightarrow> Inl e
      | Inr parent' \<Rightarrow>
          Inr (fs\<lparr>entries :=
                 attach pathname
                   (Dir \<lparr>name = name', path = pathname, parentPath = parentPath', meta = meta',
                         children = []\<rparr>)
                   parentPath' parent' (entries fs)\<rparr>))"

definition addPageFile ::
  "jstring \<Rightarrow> jstring \<Rightarrow> NotionRecordMeta \<Rightarrow> VirtualFs \<Rightarrow> fs_error + VirtualFs" where
  "addPageFile pathname parentPath' page fs =
     (case ensureParentDir fs parentPath' of
        Inl e \<Rightarrow> Inl e
      | Inr parent' \<Rightarrow>
          Inr (fs\<lparr>entries :=
                 attach pathname
                   (File \<lparr>name = js ''index.md'', path = pathname, parentPath = parentPath',
                          meta = \<lparr>meta_createdTime = Some (createdTime page),
                                   meta_lastEditedTime = Some (lastEditedTime page),
                                   meta_owner = Some (owner page),
                                   meta_pageId = Some (recId page), meta_databaseId = None\<rparr>,
                          readonly = False, pageId = recId page\<rparr>)
                   parentPath' parent' (entries fs)\<rparr>))"

definition addDbPlaceholder ::
  "jstring \<Rightarrow> jstring \<Rightarrow> jstring \<Rightarrow> NotionRecordMeta \<Rightarrow> VirtualFs \<Rightarrow> fs_error + VirtualFs" where
  "addDbPlaceholder pathname name' parentPath' database fs =
     (case ensureParentDir fs parentPath' of
        Inl e \<Rightarrow> Inl e
      | Inr parent' \<Rightarrow>
          Inr (fs\<lparr>entries :=
                 attach pathname
                   (Db \<lparr>name = name', path = pathname, parentPath = parentPath',
                        meta = \<lparr>meta_createdTime = Some (createdTime database),
                                 meta_lastEditedTime = Some (lastEditedTime database),
                                 meta_owner = Some (owner database),
                                 meta_pageId = None, meta_databaseId = Some (recId database)\<rparr>,
                        databaseId = recId database\<rparr>)
                   parentPath' parent' (entries fs)\<rparr>))"

text \<open>
  \<open>Array.prototype.sort\<close> with the comparator \<open>a.title.localeCompare(b.title)\<close>. The sort
  is stable; the collation is the host's, a parameter of the model.
\<close>

fun insertByTitle ::
  "(jstring \<Rightarrow> jstring \<Rightarrow> int) \<Rightarrow> NotionRecordMeta \<Rightarrow> NotionRecordMeta list
     \<Rightarrow> NotionRecordMeta list" where
  "insertByTitle localeCompare x [] = [x]"
| "insertByTitle localeCompare x (y # ys) =
     (if localeCompare (title x) (title y) < 0 then x # y # ys
      else y # insertByTitle localeCompare x ys)"

definition sortByTitle ::
  "(jstring \<Rightarrow> jstring \<Rightarrow> int) \<Rightarrow> NotionRecordMeta list \<Rightarrow> NotionRecordMeta list" where
  "sortByTitle localeCompare xs = foldl (\<lambda>acc x. insertByTitle localeCompare x acc) [] xs"

text \<open>\<open>page.parent?.type\<close>.\<close>

definition parentType :: "NotionRecordMeta \<Rightarrow> jstring option" where
  "parentType r = map_option parent_type (parent r)"

definition parentPageId :: "NotionRecordMeta \<Rightarrow> jstring option" where
  "parentPageId r = (case parent r of None \<Rightarrow> None | Some p \<Rightarrow> page_id p)"

text \<open>
  The loop over the eligible pages that fills \<open>childrenByParentPage\<close> and \<open>roots\<close>.
\<close>

fun partitionPages ::
  "(jstring \<times> NotionRecordMeta) list \<Rightarrow> NotionRecordMeta list
     \<Rightarrow> (jstring \<times> NotionRecordMeta list) list \<times> NotionRecordMeta list
     \<Rightarrow> (jstring \<times> NotionRecordMeta list) list \<times> NotionRecordMeta list" where
  "partitionPages known [] acc = acc"
| "partitionPages known (page # rest) (childrenByParentPage, roots) =
     (if parentType page = Some (js ''page_id'') then
        (case (case parentPageId page of
                 None \<Rightarrow> None
               | Some pid \<Rightarrow> if map_of known pid = None then None else Some pid) of
           None \<Rightarrow> partitionPages known rest (childrenByParentPage, roots @ [page])
         | Some pid \<Rightarrow>
             partitionPages known rest
               (AList.update pid
                  ((case map_of childrenByParentPage pid of None \<Rightarrow> [] | Some cs \<Rightarrow> cs) @ [page])
                  childrenByParentPage,
                roots))
      else partitionPages known rest (childrenByParentPage, roots @ [page]))"

text \<open>
  What \<open>buildPageTree\<close> closes over: the slug function, the collation and
  \<open>childrenByParentPage\<close>.
\<close>

record BuildContext =
  ctx_slugify :: "jstring \<Rightarrow> jstring"
  ctx_localeCompare :: "jstring \<Rightarrow> jstring \<Rightarrow> int"
  ctx_childrenByParentPage :: "(jstring \<times> NotionRecordMeta list) list"

definition pageMeta :: "NotionRecordMeta \<Rightarrow> EntryMeta" where
  "pageMeta page =
     \<lparr>meta_createdTime = Some (createdTime page), meta_lastEditedTime = Some (lastEditedTime page),
      meta_owner = Some (owner page), meta_pageId = Some (recId page), meta_databaseId = None\<rparr>"

text \<open>
  \<open>buildPageTree\<close> and the \<open>for\<close> loop over the children. The state is the
  \<open>VirtualFs\<close> and \<open>siblingNamesByPath\<close>. The recursion is as deep as the tree of pages;
  the first argument bounds the depth, and a recursion that reaches the bound ends as the
  source's does when the stack is exhausted, with an error.
\<close>

fun buildPageTree ::
  "nat \<Rightarrow> BuildContext \<Rightarrow> NotionRecordMeta \<Rightarrow> jstring
     \<Rightarrow> VirtualFs \<times> (jstring \<times> jstring list) list
     \<Rightarrow> fs_error + VirtualFs \<times> (jstring \<times> jstring list) list"
  and buildPageTrees ::
  "nat \<Rightarrow> BuildContext \<Rightarrow> NotionRecordMeta list \<Rightarrow> jstring
     \<Rightarrow> VirtualFs \<times> (jstring \<times> jstring list) list
     \<Rightarrow> fs_error + VirtualFs \<times> (jstring \<times> jstring list) list"
where
  "buildPageTree 0 ctx page parentPath' st = Inl CallStackExceeded"
| "buildPageTree (Suc depth) ctx page parentPath' (fs, siblingNamesByPath) =
     (let used = (case map_of siblingNamesByPath parentPath' of None \<Rightarrow> [] | Some u \<Rightarrow> u);
          base = slugFromTitle (ctx_slugify ctx) (title page)
      in case uniqueName base used (recId page) of
           (dirName, used') \<Rightarrow>
             (let siblings' = AList.update parentPath' used' siblingNamesByPath;
                  dirPath = posixJoin [parentPath', dirName]
              in case addDir dirPath dirName parentPath' (pageMeta page) fs of
                   Inl e \<Rightarrow> Inl e
                 | Inr fs1 \<Rightarrow>
                     (let fs2 = fs1\<lparr>pageDirPathById :=
                                   AList.update (recId page) dirPath (pageDirPathById fs1)\<rparr>
                      in case addPageFile (posixJoin [dirPath, js ''index.md'']) dirPath page fs2 of
                           Inl e \<Rightarrow> Inl e
                         | Inr fs3 \<Rightarrow>
                             buildPageTrees depth ctx
                               (sortByTitle (ctx_localeCompare ctx)
                                  (case map_of (ctx_childrenByParentPage ctx) (recId page) of
                                     None \<Rightarrow> [] | Some cs \<Rightarrow> cs))
                               dirPath (fs3, siblings'))))"
| "buildPageTrees depth ctx [] parentPath' st = Inr st"
| "buildPageTrees depth ctx (page # rest) parentPath' st =
     (case buildPageTree depth ctx page parentPath' st of
        Inl e \<Rightarrow> Inl e
      | Inr st' \<Rightarrow> buildPageTrees depth ctx rest parentPath' st')"

text \<open>The two equations of \<open>buildPageTree\<close> as one, for evaluation.\<close>

lemma buildPageTree_code [code]:
  "buildPageTree depth ctx page parentPath' st =
     (if depth = 0 then Inl CallStackExceeded
      else
        (let used = (case map_of (snd st) parentPath' of None \<Rightarrow> [] | Some u \<Rightarrow> u);
             base = slugFromTitle (ctx_slugify ctx) (title page)
         in case uniqueName base used (recId page) of
              (dirName, used') \<Rightarrow>
                (let siblings' = AList.update parentPath' used' (snd st);
                     dirPath = posixJoin [parentPath', dirName]
                 in case addDir dirPath dirName parentPath' (pageMeta page) (fst st) of
                      Inl e \<Rightarrow> Inl e
                    | Inr fs1 \<Rightarrow>
                        (let fs2 = fs1\<lparr>pageDirPathById :=
                                      AList.update (recId page) dirPath (pageDirPathById fs1)\<rparr>
                         in case addPageFile (posixJoin [dirPath, js ''index.md'']) dirPath page fs2 of
                              Inl e \<Rightarrow> Inl e
                            | Inr fs3 \<Rightarrow>
                                buildPageTrees (depth - 1) ctx
                                  (sortByTitle (ctx_localeCompare ctx)
                                     (case map_of (ctx_childrenByParentPage ctx) (recId page) of
                                        None \<Rightarrow> [] | Some cs \<Rightarrow> cs))
                                  dirPath (fs3, siblings')))))"
proof (cases depth)
  case 0
  then show ?thesis by simp
next
  case (Suc d)
  show ?thesis unfolding Suc
    by (cases st) (simp add: Let_def split: prod.splits sum.splits)
qed

text \<open>
  \<open>findUniquePath\<close>: the \<open>while\<close> loop looks for the first \<open>i\<close>, from 2, such that the
  path of \<open>filename-i\<close> is not a key of the map.
\<close>

definition candidatePath :: "jstring \<Rightarrow> jstring \<Rightarrow> nat \<Rightarrow> jstring" where
  "candidatePath parentPath' filename i = posixJoin [parentPath', numbered filename i]"

lemma splitOn_nonempty: "splitOn sep s \<noteq> []"
  by (induction s) (auto split: list.splits)

lemma splitOn_append_no_sep:
  "sep \<notin> set d \<Longrightarrow>
     splitOn sep (s @ d) = butlast (splitOn sep s) @ [last (splitOn sep s) @ d]"
proof (induction s)
  case Nil
  then show ?case by (induction d) (auto split: list.splits)
next
  case (Cons c s)
  then show ?case
    using splitOn_nonempty [of sep s] splitOn_nonempty [of sep "s @ d"]
    by (cases "splitOn sep s"; cases "splitOn sep (s @ d)") (auto split: if_splits)
qed

lemma normalizeString_snoc:
  "t \<noteq> [] \<Longrightarrow> t \<noteq> js ''.'' \<Longrightarrow> t \<noteq> js ''..'' \<Longrightarrow>
     normalizeString a res (xs @ [t]) = normalizeString a res xs @ [t]"
  by (induction xs arbitrary: res) auto

lemma join_snoc: "join sep (xs @ [t]) = (if xs = [] then t else join sep xs @ sep @ t)"
  by (induction sep xs rule: join.induct) auto

lemma showNat_digits: "u \<in> set (showNat n) \<Longrightarrow> 48 \<le> u \<and> u \<le> 57"
proof (induction n rule: showNat.induct)
  case (1 n)
  show ?case
  proof (cases "n < 10")
    case True
    with "1.prems" show ?thesis by (subst (asm) showNat.simps) simp
  next
    case False
    with "1.prems" have "u \<in> set (showNat (n div 10)) \<or> u = 48 + n mod 10"
      by (subst (asm) showNat.simps) auto
    with "1.IH" False show ?thesis by auto
  qed
qed

lemma posixNormalize_digits:
  assumes "s \<noteq> []" and "d \<noteq> []" and "\<forall>u \<in> set d. 48 \<le> u \<and> u \<le> 57"
  shows "posixNormalize (s @ d) =
          (if startsWithSlash s then [slash] else [])
          @ (let r = normalizeString (\<not> startsWithSlash s) [] (butlast (splitOn slash s))
             in if r = [] then [] else join [slash] r @ [slash])
          @ last (splitOn slash s) @ d"
proof -
  let ?l = "last (splitOn slash s)"
  let ?pre = "butlast (splitOn slash s)"
  have ns: "slash \<notin> set d" using assms(3) by (auto simp: slash_def)
  have sp: "splitOn slash (s @ d) = ?pre @ [?l @ d]" by (rule splitOn_append_no_sep [OF ns])
  obtain u where u: "u \<in> set d" using assms(2) by (cases d) auto
  then have u48: "48 \<le> u" using assms(3) by auto
  have t1: "?l @ d \<noteq> []" using assms(2) by simp
  have t2: "?l @ d \<noteq> js ''.''" using u u48 by (auto simp: append_eq_Cons_conv)
  have t3: "?l @ d \<noteq> js ''..''"
  proof
    assume "?l @ d = js ''..''"
    then have "set (?l @ d) = {46}" by simp
    moreover have "u \<in> set (?l @ d)" using u by simp
    ultimately have "u = 46" by blast
    with u48 show False by simp
  qed
  have st: "startsWithSlash (s @ d) = startsWithSlash s"
    using assms(1) by (cases s) (auto simp: startsWithSlash_def)
  have "last d \<in> set d" using assms(2) by simp
  then have "48 \<le> last d" using assms(3) by blast
  then have en: "\<not> endsWithSlash (s @ d)"
    using assms(2) by (simp add: endsWithSlash_def slash_def)
  have nz: "normalizeString (\<not> startsWithSlash s) [] (?pre @ [?l @ d])
        = normalizeString (\<not> startsWithSlash s) [] ?pre @ [?l @ d]"
    by (rule normalizeString_snoc [OF t1 t2 t3])
  show ?thesis
    unfolding posixNormalize_def st sp nz join_snoc Let_def
    using assms(1,2) en by (auto simp: st)
qed

lemma candidatePath_form: "\<exists>c. \<forall>i. candidatePath p f i = c @ showNat i"
proof -
  let ?s = "(if p = [] then [] else p @ [slash]) @ f @ js ''-''"
  have s: "?s \<noteq> []" by simp
  have j: "\<And>i. candidatePath p f i = posixNormalize (?s @ showNat i)"
    by (simp add: candidatePath_def posixJoin_def numbered_def showNat_nonempty)
  have "\<And>i. candidatePath p f i =
          ((if startsWithSlash ?s then [slash] else [])
          @ (let r = normalizeString (\<not> startsWithSlash ?s) [] (butlast (splitOn slash ?s))
             in if r = [] then [] else join [slash] r @ [slash])
          @ last (splitOn slash ?s)) @ showNat i"
    unfolding j
    using posixNormalize_digits [OF s showNat_nonempty] showNat_digits
    by (metis (no_types, lifting) append.assoc)
  then show ?thesis by blast
qed

lemma candidatePath_inj: "candidatePath p f i = candidatePath p f j \<Longrightarrow> i = j"
  using candidatePath_form [of p f] showNat_inj by auto

lemma fresh_index_measure:
  assumes inj: "\<And>i j. c i = c j \<Longrightarrow> i = j" and mem: "c i \<in> set xs"
  shows "length (filter (\<lambda>s. \<exists>j \<ge> Suc i. s = c j) xs)
       < length (filter (\<lambda>s. \<exists>j \<ge> i. s = c j) xs)"
proof -
  let ?P = "\<lambda>s. \<exists>j \<ge> Suc i. s = c j" and ?Q = "\<lambda>s. \<exists>j \<ge> i. s = c j"
  have imp: "\<And>s. ?P s \<Longrightarrow> ?Q s"
  proof -
    fix s assume "?P s"
    then obtain j where "Suc i \<le> j" "s = c j" by blast
    then have "i \<le> j \<and> s = c j" by simp
    then show "?Q s" by blast
  qed
  have "filter ?P xs = filter ?P (filter ?Q xs)"
    unfolding filter_filter by (rule filter_cong) (use imp in blast)+
  moreover have "length (filter ?P (filter ?Q xs)) < length (filter ?Q xs)"
  proof (rule length_filter_less [of "c i"])
    show "c i \<in> set (filter ?Q xs)" using mem by auto
    show "\<not> ?P (c i)" using inj by fastforce
  qed
  ultimately show ?thesis by simp
qed

function findUniqueIndex :: "(jstring \<times> FsEntry) list \<Rightarrow> jstring \<Rightarrow> jstring \<Rightarrow> nat \<Rightarrow> nat" where
  "findUniqueIndex es parentPath' filename i =
     (if map_of es (candidatePath parentPath' filename i) \<noteq> None
      then findUniqueIndex es parentPath' filename (i + 1) else i)"
  by pat_completeness auto
termination
proof (relation "measure (\<lambda>(es, p, f, i).
          length (filter (\<lambda>s. \<exists>j \<ge> i. s = candidatePath p f j) (map fst es)))", goal_cases)
  case 1
  show ?case by simp
next
  case (2 es p f i)
  then have "candidatePath p f i \<in> set (map fst es)"
    by (metis map_of_eq_None_iff set_map)
  from fresh_index_measure [of "candidatePath p f" i "map fst es", OF candidatePath_inj this]
  show ?case by simp
qed

declare findUniqueIndex.simps [simp del]

definition findUniquePath :: "VirtualFs \<Rightarrow> jstring \<Rightarrow> jstring \<Rightarrow> jstring" where
  "findUniquePath fs parentPath' filename =
     (if map_of (entries fs) (posixJoin [parentPath', filename]) = None
      then posixJoin [parentPath', filename]
      else candidatePath parentPath' filename
             (findUniqueIndex (entries fs) parentPath' filename 2))"

text \<open>The loop over the databases; the state is the \<open>VirtualFs\<close> and \<open>dbNamesByParent\<close>.\<close>

definition databaseParentPath :: "VirtualFs \<Rightarrow> NotionRecordMeta \<Rightarrow> jstring" where
  "databaseParentPath fs database =
     (if parentType database = Some (js ''page_id'') then
        (case (case parentPageId database of
                 None \<Rightarrow> None
               | Some pid \<Rightarrow> map_of (pageDirPathById fs) pid) of
           None \<Rightarrow> js ''/pages''
         | Some parentDir \<Rightarrow> if parentDir = [] then js ''/pages'' else parentDir)
      else js ''/pages'')"

fun placeDatabases ::
  "NotionRecordMeta list \<Rightarrow> VirtualFs \<times> (jstring \<times> jstring list) list
     \<Rightarrow> fs_error + VirtualFs \<times> (jstring \<times> jstring list) list" where
  "placeDatabases [] st = Inr st"
| "placeDatabases (database # rest) (fs, dbNamesByParent) =
     (let parentPath' = databaseParentPath fs database;
          used = (case map_of dbNamesByParent parentPath' of None \<Rightarrow> [] | Some u \<Rightarrow> u);
          base = js ''[db:'' @ shortId (recId database) @ js '']''
      in case uniqueName base used (recId database) of
           (name', used') \<Rightarrow>
             (case addDbPlaceholder (findUniquePath fs parentPath' name') name' parentPath'
                     database fs of
                Inl e \<Rightarrow> Inl e
              | Inr fs' \<Rightarrow>
                  placeDatabases rest (fs', AList.update parentPath' used' dbNamesByParent)))"

text \<open>
  The body of the rebuild that \<open>refresh\<close> starts, from the listing on: the pages and the
  databases are what \<open>listRecords\<close> returned, \<open>now\<close> is the clock at the end. The depth
  bound is one more than the number of pages.
\<close>

definition rebuild ::
  "(jstring \<Rightarrow> jstring) \<Rightarrow> (jstring \<Rightarrow> jstring \<Rightarrow> int) \<Rightarrow> NotionRecordMeta list
     \<Rightarrow> NotionRecordMeta list \<Rightarrow> int \<Rightarrow> VirtualFs \<Rightarrow> fs_error + VirtualFs" where
  "rebuild slugify localeCompare pages databases now fs =
     (let fs1 = (reset fs)\<lparr>notionPages :=
                   foldl (\<lambda>known page. AList.update (recId page) page known) [] pages\<rparr>;
          eligiblePages = filter (\<lambda>page. parentType page \<noteq> Some (js ''database_id'')) pages
      in case partitionPages (notionPages fs1) eligiblePages ([], []) of
           (childrenByParentPage, roots) \<Rightarrow>
             (case buildPageTrees (Suc (length pages))
                     \<lparr>ctx_slugify = slugify, ctx_localeCompare = localeCompare,
                      ctx_childrenByParentPage = childrenByParentPage\<rparr>
                     (sortByTitle localeCompare roots) (js ''/pages'') (fs1, []) of
                Inl e \<Rightarrow> Inl e
              | Inr (fs2, siblingNamesByPath) \<Rightarrow>
                  (case placeDatabases databases (fs2, []) of
                     Inl e \<Rightarrow> Inl e
                   | Inr (fs3, dbNamesByParent) \<Rightarrow>
                       Inr (fs3\<lparr>indexedAtLeastOnce := True, lastRefreshAt := now\<rparr>))))"

section \<open>The invariants of the built namespace\<close>

subsection \<open>Paths made of clean segments\<close>

definition cleanSeg :: "jstring \<Rightarrow> bool" where
  "cleanSeg n = (n \<noteq> [] \<and> slash \<notin> set n \<and> n \<noteq> js ''.'' \<and> n \<noteq> js ''..'')"

definition absPath :: "jstring list \<Rightarrow> jstring" where
  "absPath segs = concat (map (\<lambda>s. slash # s) segs)"

definition goodPath :: "jstring \<Rightarrow> bool" where
  "goodPath p = (\<exists>segs. segs \<noteq> [] \<and> list_all cleanSeg segs \<and> p = absPath segs)"

lemma split_last_slash:
  assumes "p @ [slash] @ n = p' @ [slash] @ n'" and "slash \<notin> set n" and "slash \<notin> set n'"
  shows "p = p' \<and> n = n'"
proof -
  have r: "rev n @ slash # rev p = rev n' @ slash # rev p'"
    using arg_cong [OF assms(1), of rev] by simp
  have "takeWhile (\<lambda>u. u \<noteq> slash) (rev n @ slash # rev p) = rev n"
    using assms(2) by (auto simp: takeWhile_tail)
  moreover have "takeWhile (\<lambda>u. u \<noteq> slash) (rev n' @ slash # rev p') = rev n'"
    using assms(3) by (auto simp: takeWhile_tail)
  ultimately have "rev n = rev n'" using r by simp
  then have "n = n'" by simp
  with assms(1) show ?thesis by simp
qed

lemma splitOn_no_sep: "sep \<notin> set s \<Longrightarrow> splitOn sep s = [s]"
  by (induction s) auto

lemma splitOn_sep: "sep \<notin> set s \<Longrightarrow> splitOn sep (s @ sep # t) = s # splitOn sep t"
  by (induction s) auto

lemma splitOn_absPath:
  "slash \<notin> set s \<Longrightarrow> list_all cleanSeg segs \<Longrightarrow> splitOn slash (s @ absPath segs) = s # segs"
proof (induction segs arbitrary: s)
  case Nil
  then show ?case by (simp add: absPath_def splitOn_no_sep)
next
  case (Cons x xs)
  then have "splitOn slash (x @ absPath xs) = x # xs" by (simp add: cleanSeg_def)
  with Cons.prems show ?case
    using splitOn_sep [of slash s "x @ absPath xs"] by (simp add: absPath_def)
qed

lemma normalizeString_clean:
  "list_all cleanSeg segs \<Longrightarrow> normalizeString a res segs = res @ segs"
  by (induction segs arbitrary: res) (auto simp: cleanSeg_def)

lemma join_absPath: "segs \<noteq> [] \<Longrightarrow> slash # join [slash] segs = absPath segs"
  by (induction "[slash]" segs rule: join.induct) (auto simp: absPath_def)

lemma absPath_nonempty: "segs \<noteq> [] \<Longrightarrow> absPath segs \<noteq> []"
  by (cases segs) (auto simp: absPath_def)

lemma absPath_starts: "segs \<noteq> [] \<Longrightarrow> startsWithSlash (absPath segs)"
  by (cases segs) (auto simp: absPath_def startsWithSlash_def)

lemma absPath_ends:
  "segs \<noteq> [] \<Longrightarrow> list_all cleanSeg segs \<Longrightarrow> \<not> endsWithSlash (absPath segs)"
proof (induction segs rule: rev_induct)
  case Nil then show ?case by simp
next
  case (snoc x xs)
  then have "x \<noteq> []" and "slash \<notin> set x" by (auto simp: cleanSeg_def)
  then have "last x \<noteq> slash" using last_in_set by metis
  with \<open>x \<noteq> []\<close> show ?case by (simp add: absPath_def endsWithSlash_def)
qed

lemma posixNormalize_absPath:
  assumes "segs \<noteq> []" and "list_all cleanSeg segs"
  shows "posixNormalize (absPath segs) = absPath segs"
proof -
  have sp: "splitOn slash (absPath segs) = [] # segs"
    using splitOn_absPath [of "[]" segs] assms(2) by simp
  have nz: "normalizeString False [] segs = segs"
    using normalizeString_clean [OF assms(2), of False "[]"] by simp
  have j: "join [slash] segs \<noteq> []" using assms
    by (cases segs) (auto simp: cleanSeg_def join_Cons)
  show ?thesis
    unfolding posixNormalize_def
    using absPath_nonempty [OF assms(1)] absPath_starts [OF assms(1)] absPath_ends [OF assms]
      j join_absPath [OF assms(1)]
    by (simp add: sp nz Let_def)
qed

lemma posixJoin_good:
  assumes "goodPath p" and "cleanSeg n"
  shows "posixJoin [p, n] = p @ [slash] @ n" and "goodPath (p @ [slash] @ n)"
proof -
  from assms(1) obtain segs where s: "segs \<noteq> []" "list_all cleanSeg segs" "p = absPath segs"
    by (auto simp: goodPath_def)
  have e: "p @ [slash] @ n = absPath (segs @ [n])" using s(3) by (simp add: absPath_def)
  have c: "list_all cleanSeg (segs @ [n])" using s(2) assms(2) by simp
  have pn: "p \<noteq> []" using s absPath_nonempty by simp
  have nn: "n \<noteq> []" using assms(2) by (simp add: cleanSeg_def)
  have "posixJoin [p, n] = posixNormalize (p @ [slash] @ n)"
    using pn nn by (simp add: posixJoin_def)
  also have "\<dots> = p @ [slash] @ n"
    unfolding e by (rule posixNormalize_absPath) (use c in simp_all)
  finally show "posixJoin [p, n] = p @ [slash] @ n" .
  show "goodPath (p @ [slash] @ n)"
    unfolding goodPath_def e using c by (intro exI [of _ "segs @ [n]"]) simp
qed

lemma goodPath_nonempty: "goodPath p \<Longrightarrow> p \<noteq> []"
  by (auto simp: goodPath_def absPath_nonempty)

lemma goodPath_pages: "goodPath (js ''/pages'')"
  unfolding goodPath_def
  by (intro exI [of _ "[js ''pages'']"]) (simp add: absPath_def cleanSeg_def slash_def)

subsection \<open>The tree invariant\<close>

fun entryPath :: "FsEntry \<Rightarrow> jstring" where
  "entryPath (Dir d) = path d"
| "entryPath (File f) = path f"
| "entryPath (Db b) = path b"

fun entryParentPath :: "FsEntry \<Rightarrow> jstring" where
  "entryParentPath (Dir d) = parentPath d"
| "entryParentPath (File f) = parentPath f"
| "entryParentPath (Db b) = parentPath b"

text \<open>
  The invariant of the data model, on the map of entries: the keys are distinct and each
  entry's \<open>path\<close> is its key; the \<open>parentPath\<close> of every entry but the root is the key of a
  directory whose children hold the entry's path (no orphan); every child path of a
  directory is the key of an entry whose \<open>parentPath\<close> is that directory (no dangling
  child).
\<close>

definition heldByParent :: "(jstring \<times> FsEntry) list \<Rightarrow> jstring \<Rightarrow> FsEntry \<Rightarrow> bool" where
  "heldByParent es p e =
     (case map_of es (entryParentPath e) of
        Some (Dir d) \<Rightarrow> p \<in> set (children d)
      | _ \<Rightarrow> False)"

definition childResolves :: "(jstring \<times> FsEntry) list \<Rightarrow> jstring \<Rightarrow> jstring \<Rightarrow> bool" where
  "childResolves es p c =
     (case map_of es c of None \<Rightarrow> False | Some e' \<Rightarrow> entryParentPath e' = p)"

definition entryOk :: "(jstring \<times> FsEntry) list \<Rightarrow> jstring \<Rightarrow> FsEntry \<Rightarrow> bool" where
  "entryOk es p e =
     (entryPath e = p
      \<and> (p = js ''/'' \<or> heldByParent es p e)
      \<and> (case e of Dir d \<Rightarrow> list_all (childResolves es p) (children d) | _ \<Rightarrow> True))"

definition wellFormedTree :: "(jstring \<times> FsEntry) list \<Rightarrow> bool" where
  "wellFormedTree es = (distinct (map fst es) \<and> list_all (\<lambda>(p, e). entryOk es p e) es)"

definition wfMap :: "(jstring \<rightharpoonup> FsEntry) \<Rightarrow> bool" where
  "wfMap m =
     ((\<forall>p e. m p = Some e \<longrightarrow> entryPath e = p)
      \<and> (\<forall>p e. m p = Some e \<and> p \<noteq> js ''/'' \<longrightarrow>
            (\<exists>d. m (entryParentPath e) = Some (Dir d) \<and> p \<in> set (children d)))
      \<and> (\<forall>p d c. m p = Some (Dir d) \<and> c \<in> set (children d) \<longrightarrow>
            (\<exists>e. m c = Some e \<and> entryParentPath e = p)))"

lemma wfMap_entryOk:
  assumes "wfMap (map_of es)" and m: "map_of es p = Some e"
  shows "entryOk es p e"
proof -
  have a: "entryPath e = p" using assms unfolding wfMap_def by blast
  have b: "p = js ''/'' \<or> heldByParent es p e"
  proof (cases "p = js ''/''")
    case True then show ?thesis by blast
  next
    case False
    with assms obtain d where "map_of es (entryParentPath e) = Some (Dir d)"
      "p \<in> set (children d)" unfolding wfMap_def by blast
    then show ?thesis by (simp add: heldByParent_def)
  qed
  have c: "(case e of Dir d \<Rightarrow> list_all (childResolves es p) (children d) | _ \<Rightarrow> True)"
  proof (cases e)
    case (Dir d)
    have "\<And>c. c \<in> set (children d) \<Longrightarrow> childResolves es p c"
    proof -
      fix c assume "c \<in> set (children d)"
      with assms Dir obtain e' where "map_of es c = Some e'" "entryParentPath e' = p"
        unfolding wfMap_def by blast
      then show "childResolves es p c" by (simp add: childResolves_def)
    qed
    with Dir show ?thesis by (simp add: list_all_iff)
  qed simp_all
  from a b c show ?thesis unfolding entryOk_def by blast
qed

lemma wfMap_wellFormedTree:
  assumes "distinct (map fst es)" and "wfMap (map_of es)"
  shows "wellFormedTree es"
proof -
  have "\<And>p e. (p, e) \<in> set es \<Longrightarrow> entryOk es p e"
    using wfMap_entryOk [OF assms(2)] assms(1) by simp
  then show ?thesis
    unfolding wellFormedTree_def list_all_iff using assms(1) by auto
qed

lemma wellFormedTree_wfMap:
  assumes "wellFormedTree es"
  shows "wfMap (map_of es)"
proof -
  have ok: "\<And>p e. map_of es p = Some e \<Longrightarrow> entryOk es p e"
  proof -
    fix p e assume "map_of es p = Some e"
    then have "(p, e) \<in> set es" by (rule map_of_SomeD)
    with assms show "entryOk es p e" unfolding wellFormedTree_def list_all_iff by auto
  qed
  show ?thesis
    unfolding wfMap_def
  proof (intro conjI allI impI)
    fix p e assume "map_of es p = Some e"
    then show "entryPath e = p" using ok unfolding entryOk_def by blast
  next
    fix p e assume a: "map_of es p = Some e \<and> p \<noteq> js ''/''"
    then have "heldByParent es p e" using ok unfolding entryOk_def by blast
    then show "\<exists>d. map_of es (entryParentPath e) = Some (Dir d) \<and> p \<in> set (children d)"
      unfolding heldByParent_def by (auto split: option.splits FsEntry.splits)
  next
    fix p d c assume a: "map_of es p = Some (Dir d) \<and> c \<in> set (children d)"
    then have "list_all (childResolves es p) (children d)"
      using ok [of p "Dir d"] unfolding entryOk_def by simp
    with a have "childResolves es p c" by (simp add: list_all_iff)
    then show "\<exists>e. map_of es c = Some e \<and> entryParentPath e = p"
      unfolding childResolves_def by (auto split: option.splits)
  qed
qed

text \<open>Adding a fresh entry under an existing directory keeps the invariant.\<close>

lemma wfMap_attach:
  assumes wf: "wfMap m"
    and par: "m pp = Some (Dir par)"
    and fresh: "m p = None"
    and root: "m (js ''/'') \<noteq> None"
    and ep: "entryPath e = p" and epp: "entryParentPath e = pp"
    and nochildren: "\<And>d. e = Dir d \<Longrightarrow> children d = []"
  shows "wfMap (m(p \<mapsto> e, pp \<mapsto> Dir (par\<lparr>children := setAdd p (children par)\<rparr>)))"
proof -
  let ?par' = "Dir (par\<lparr>children := setAdd p (children par)\<rparr>)"
  let ?m' = "m(p \<mapsto> e, pp \<mapsto> ?par')"
  have ne: "p \<noteq> pp" using par fresh by auto
  have pr: "p \<noteq> js ''/''" using root fresh by auto
  have ppath: "entryPath ?par' = pp" using wf par unfolding wfMap_def by fastforce
  have pparent: "entryParentPath ?par' = entryParentPath (Dir par)" by simp
  have pin: "p \<in> set (setAdd p (children par))" by (simp add: setAdd_def)
  have sub: "set (children par) \<subseteq> set (setAdd p (children par))" by (auto simp: setAdd_def)
  have seteq: "set (setAdd p (children par)) = insert p (set (children par))"
    by (auto simp: setAdd_def)
  \<comment> \<open>every old entry is still there, up to the children of the parent\<close>
  have keep: "\<And>q x. m q = Some x \<Longrightarrow>
     \<exists>x'. ?m' q = Some x' \<and> entryPath x' = entryPath x \<and> entryParentPath x' = entryParentPath x
        \<and> (\<forall>d. x = Dir d \<longrightarrow> (\<exists>d'. x' = Dir d' \<and> set (children d) \<subseteq> set (children d')))"
  proof -
    fix q x assume q: "m q = Some x"
    then have qp: "q \<noteq> p" using fresh by auto
    show "\<exists>x'. ?m' q = Some x' \<and> entryPath x' = entryPath x \<and> entryParentPath x' = entryParentPath x
        \<and> (\<forall>d. x = Dir d \<longrightarrow> (\<exists>d'. x' = Dir d' \<and> set (children d) \<subseteq> set (children d')))"
    proof (cases "q = pp")
      case True
      with q par have "x = Dir par" by simp
      with True sub show ?thesis by auto
    next
      case False
      with qp q show ?thesis by auto
    qed
  qed
  show ?thesis
    unfolding wfMap_def
  proof (intro conjI allI impI)
    fix q x assume a: "?m' q = Some x"
    show "entryPath x = q"
    proof (cases "q = pp")
      case True with a ppath show ?thesis by auto
    next
      case False
      show ?thesis
      proof (cases "q = p")
        case True with a False ep show ?thesis by auto
      next
        case F2: False
        with False a have "m q = Some x" by simp
        with wf show ?thesis unfolding wfMap_def by blast
      qed
    qed
  next
    fix q x assume a: "?m' q = Some x \<and> q \<noteq> js ''/''"
    show "\<exists>d. ?m' (entryParentPath x) = Some (Dir d) \<and> q \<in> set (children d)"
    proof (cases "q = p")
      case True
      with a ne have "x = e" by simp
      with epp True pin show ?thesis by simp
    next
      case False
      \<comment> \<open>an old entry (possibly the parent with its new child)\<close>
      obtain x0 where x0: "m q = Some x0" "entryParentPath x = entryParentPath x0"
      proof (cases "q = pp")
        case True
        with a have "x = ?par'" by simp
        with that [of "Dir par"] par True show ?thesis by simp
      next
        case F2: False
        with False a that [of x] show ?thesis by simp
      qed
      with wf a obtain d0 where d0: "m (entryParentPath x0) = Some (Dir d0)" "q \<in> set (children d0)"
        unfolding wfMap_def by blast
      from keep [OF d0(1)] obtain d' where
        "?m' (entryParentPath x0) = Some (Dir d')" "set (children d0) \<subseteq> set (children d')"
        by auto
      with d0(2) x0(2) show ?thesis by auto
    qed
  next
    fix q d c assume a: "?m' q = Some (Dir d) \<and> c \<in> set (children d)"
    show "\<exists>x. ?m' c = Some x \<and> entryParentPath x = q"
    proof (cases "q = p")
      case True
      with a ne have "e = Dir d" by simp
      with nochildren a show ?thesis by auto
    next
      case False
      show ?thesis
      proof (cases "c = p")
        case True
        \<comment> \<open>only the parent holds the new child\<close>
        have "q = pp"
        proof (rule ccontr)
          assume "q \<noteq> pp"
          with False a have "m q = Some (Dir d)" by simp
          with wf a obtain x where "m c = Some x" unfolding wfMap_def by blast
          with True fresh show False by simp
        qed
        with True ne epp show ?thesis by simp
      next
        case F2: False
        have "\<exists>x0. m c = Some x0 \<and> entryParentPath x0 = q"
        proof (cases "q = pp")
          case True
          with a have "d = par\<lparr>children := setAdd p (children par)\<rparr>" by simp
          with a F2 seteq have "c \<in> set (children par)" by auto
          with wf par True show ?thesis unfolding wfMap_def by blast
        next
          case F3: False
          with False a have "m q = Some (Dir d)" by simp
          with wf a show ?thesis unfolding wfMap_def by blast
        qed
        then obtain x0 where x0: "m c = Some x0" "entryParentPath x0 = q" by blast
        from keep [OF x0(1)] x0(2) show ?thesis by auto
      qed
    qed
  qed
qed

subsection \<open>Names that are clean segments\<close>

definition slugOk :: "(jstring \<Rightarrow> jstring) \<Rightarrow> bool" where
  "slugOk slugify = (\<forall>t. slash \<notin> set (slugify t) \<and> of_char CHR ''.'' \<notin> set (slugify t))"

definition cleanName :: "jstring \<Rightarrow> bool" where
  "cleanName n = (cleanSeg n \<and> n \<noteq> js ''index.md'')"

lemma slugFromTitle_clean:
  assumes "slugOk slugify"
  shows "slash \<notin> set (slugFromTitle slugify t)"
    and "of_char CHR ''.'' \<notin> set (slugFromTitle slugify t)"
    and "slugFromTitle slugify t \<noteq> []"
  using assms by (auto simp: slugOk_def slugFromTitle_def Let_def slash_def)

lemma dotless_clean:
  assumes "n \<noteq> []" and "slash \<notin> set n" and "of_char CHR ''.'' \<notin> set n"
  shows "cleanName n"
proof -
  have "n \<noteq> js ''.''" "n \<noteq> js ''..''" "n \<noteq> js ''index.md''"
    using assms(3) by auto
  with assms show ?thesis by (simp add: cleanName_def cleanSeg_def)
qed

lemma hyphen_clean:
  assumes "slash \<notin> set a" and "slash \<notin> set b"
  shows "cleanName (a @ js ''-'' @ b)"
proof -
  let ?n = "a @ js ''-'' @ b"
  have h: "(45::nat) \<in> set ?n" by simp
  have d: "\<And>s. (45::nat) \<notin> set s \<Longrightarrow> ?n \<noteq> s" using h by metis
  have "?n \<noteq> js ''.''" "?n \<noteq> js ''..''" "?n \<noteq> js ''index.md''"
    by (rule d, simp)+
  moreover have "slash \<notin> set ?n" using assms by (simp add: slash_def)
  moreover have "?n \<noteq> []" by simp
  ultimately show ?thesis unfolding cleanName_def cleanSeg_def by blast
qed

lemma shortId_no_slash: "slash \<notin> set i \<Longrightarrow> slash \<notin> set (shortId i)"
  unfolding shortId_def noDash_def by (meson filter_is_subset in_set_takeD subsetD)

lemma showNat_no_slash: "slash \<notin> set (showNat i)"
  using showNat_digits [of slash i] by (auto simp: slash_def)

lemma uniqueName_clean:
  assumes "uniqueName b used i = (n, used')"
    and "b \<noteq> []" and "slash \<notin> set b" and "of_char CHR ''.'' \<notin> set b"
    and "slash \<notin> set i"
  shows "cleanName n"
proof -
  let ?w = "b @ js ''-'' @ shortId i"
  have w: "slash \<notin> set ?w" using assms(3) shortId_no_slash [OF assms(5)] by (simp add: slash_def)
  consider "n = b" | "n = ?w" | k where "n = numbered ?w k"
    using assms(1) by (auto simp: uniqueName_def Let_def split: if_splits)
  then show ?thesis
  proof cases
    case 1 with assms show ?thesis by (simp add: dotless_clean)
  next
    case 2 with hyphen_clean [OF assms(3) shortId_no_slash [OF assms(5)]] show ?thesis by simp
  next
    case 3
    with hyphen_clean [OF w showNat_no_slash, of k] show ?thesis by (simp add: numbered_def)
  qed
qed

subsection \<open>The invariant of the page phase\<close>

definition namesIn :: "(jstring \<times> jstring list) list \<Rightarrow> jstring \<Rightarrow> jstring list" where
  "namesIn sib q = (case map_of sib q of None \<Rightarrow> [] | Some u \<Rightarrow> u)"

definition namedUnder :: "(jstring \<times> jstring list) list \<Rightarrow> FsEntry \<Rightarrow> jstring \<Rightarrow> bool" where
  "namedUnder sib e n =
     (case e of
        Dir d \<Rightarrow> n \<in> set (namesIn sib (parentPath d))
      | File f \<Rightarrow> n = js ''index.md''
      | Db b \<Rightarrow> False)"

definition pageInv :: "(jstring \<rightharpoonup> FsEntry) \<Rightarrow> (jstring \<times> jstring list) list \<Rightarrow> bool" where
  "pageInv m sib =
     (wfMap m \<and> m (js ''/'') \<noteq> None
      \<and> (\<forall>p e. m p = Some e \<longrightarrow>
            p = js ''/'' \<or> p = js ''/pages''
            \<or> (\<exists>n. p = entryParentPath e @ [slash] @ n \<and> slash \<notin> set n \<and> namedUnder sib e n))
      \<and> (\<forall>p d. m p = Some (Dir d) \<and> p \<noteq> js ''/'' \<longrightarrow> goodPath p))"

lemma slash_pages_split: "js ''/pages'' = [] @ [slash] @ js ''pages''"
  by (simp add: slash_def)

lemma fresh_dir:
  assumes inv: "pageInv m sib" and gp: "goodPath pp" and cn: "cleanName n"
    and nu: "n \<notin> set (namesIn sib pp)"
  shows "m (pp @ [slash] @ n) = None"
proof (rule ccontr)
  assume "m (pp @ [slash] @ n) \<noteq> None"
  then obtain e where e: "m (pp @ [slash] @ n) = Some e" by blast
  have ns: "slash \<notin> set n" using cn by (simp add: cleanName_def cleanSeg_def)
  have ppn: "pp \<noteq> []" using gp by (rule goodPath_nonempty)
  from inv e consider "pp @ [slash] @ n = js ''/''" | "pp @ [slash] @ n = js ''/pages''"
    | k where "pp @ [slash] @ n = entryParentPath e @ [slash] @ k" "slash \<notin> set k" "namedUnder sib e k"
    unfolding pageInv_def by blast
  then show False
  proof cases
    case 1
    then have "length (pp @ [slash] @ n) = 1" by simp
    with ppn show False by simp
  next
    case 2
    then have "pp @ [slash] @ n = [] @ [slash] @ js ''pages''" by (simp add: slash_def)
    from split_last_slash [OF this ns] ppn show False by (simp add: slash_def)
  next
    case 3
    from split_last_slash [OF 3(1) ns 3(2)] have eq: "pp = entryParentPath e" "n = k" by auto
    show False
    proof (cases e)
      case (Dir d)
      with 3(3) eq nu show False by (simp add: namedUnder_def)
    next
      case (File f)
      with 3(3) eq cn show False by (simp add: namedUnder_def cleanName_def)
    next
      case (Db b)
      with 3(3) show False by (simp add: namedUnder_def)
    qed
  qed
qed

lemma fresh_index:
  assumes inv: "pageInv m sib" and fd: "m d = None" and dn: "d \<noteq> []"
  shows "m (d @ [slash] @ js ''index.md'') = None"
proof (rule ccontr)
  let ?p = "d @ [slash] @ js ''index.md''"
  assume "m ?p \<noteq> None"
  then obtain e where e: "m ?p = Some e" by blast
  have ns: "slash \<notin> set (js ''index.md'')" by (simp add: slash_def)
  have pr: "?p \<noteq> js ''/''" using dn by (cases d) auto
  from inv e consider "?p = js ''/''" | "?p = js ''/pages''"
    | k where "?p = entryParentPath e @ [slash] @ k" "slash \<notin> set k"
    unfolding pageInv_def by blast
  then show False
  proof cases
    case 1 with pr show False by simp
  next
    case 2
    then have "?p = [] @ [slash] @ js ''pages''" by (simp add: slash_def)
    from split_last_slash [OF this ns] show False by (simp add: slash_def)
  next
    case 3
    from split_last_slash [OF 3(1) ns 3(2)] have eq: "d = entryParentPath e" by simp
    from inv e pr obtain x where "m (entryParentPath e) = Some (Dir x)"
      unfolding pageInv_def wfMap_def by blast
    with eq fd show False by simp
  qed
qed

text \<open>Adding a fresh directory or index file under a directory keeps the page invariant.\<close>

lemma pageInv_add:
  assumes inv: "pageInv m sib"
    and par: "m pp = Some (Dir par)" and gp: "goodPath pp"
    and fresh: "m (pp @ [slash] @ n) = None"
    and ns: "slash \<notin> set n"
    and ep: "entryPath e = pp @ [slash] @ n" and epp: "entryParentPath e = pp"
    and nochildren: "\<And>d. e = Dir d \<Longrightarrow> children d = [] \<and> cleanSeg n"
    and nu: "namedUnder sib' e n"
    and grow: "\<And>q. set (namesIn sib q) \<subseteq> set (namesIn sib' q)"
  shows "pageInv (m(pp @ [slash] @ n \<mapsto> e,
                    pp \<mapsto> Dir (par\<lparr>children := setAdd (pp @ [slash] @ n) (children par)\<rparr>))) sib'"
proof -
  let ?p = "pp @ [slash] @ n"
  let ?par' = "Dir (par\<lparr>children := setAdd ?p (children par)\<rparr>)"
  let ?m' = "m(?p \<mapsto> e, pp \<mapsto> ?par')"
  have wf: "wfMap m" and root: "m (js ''/'') \<noteq> None" using inv by (simp_all add: pageInv_def)
  have ne: "?p \<noteq> pp" by simp
  have w: "wfMap ?m'"
    using wfMap_attach [OF wf par fresh root ep epp] nochildren by blast
  have r: "?m' (js ''/'') \<noteq> None" using root by simp
  have mono: "\<And>x k. namedUnder sib x k \<Longrightarrow> namedUnder sib' x k"
    using grow unfolding namedUnder_def by (auto split: FsEntry.splits)
  have c3: "\<forall>q x. ?m' q = Some x \<longrightarrow>
            q = js ''/'' \<or> q = js ''/pages''
            \<or> (\<exists>k. q = entryParentPath x @ [slash] @ k \<and> slash \<notin> set k \<and> namedUnder sib' x k)"
  proof (intro allI impI)
    fix q x assume a: "?m' q = Some x"
    show "q = js ''/'' \<or> q = js ''/pages''
            \<or> (\<exists>k. q = entryParentPath x @ [slash] @ k \<and> slash \<notin> set k \<and> namedUnder sib' x k)"
    proof (cases "q = pp")
      case True
      with a have x: "x = ?par'" by simp
      from inv par have "pp = js ''/'' \<or> pp = js ''/pages''
            \<or> (\<exists>k. pp = entryParentPath (Dir par) @ [slash] @ k \<and> slash \<notin> set k
                  \<and> namedUnder sib (Dir par) k)"
        unfolding pageInv_def by blast
      then show ?thesis
        using True x mono [of "Dir par"] by (auto simp: namedUnder_def)
    next
      case False
      show ?thesis
      proof (cases "q = ?p")
        case True
        with a ne have "x = e" by simp
        with True epp ns nu show ?thesis by auto
      next
        case F2: False
        with False a have "m q = Some x" by simp
        with inv have "q = js ''/'' \<or> q = js ''/pages''
            \<or> (\<exists>k. q = entryParentPath x @ [slash] @ k \<and> slash \<notin> set k \<and> namedUnder sib x k)"
          unfolding pageInv_def by blast
        with mono show ?thesis by blast
      qed
    qed
  qed
  have c4: "\<forall>q d. ?m' q = Some (Dir d) \<and> q \<noteq> js ''/'' \<longrightarrow> goodPath q"
  proof (intro allI impI)
    fix q d assume a: "?m' q = Some (Dir d) \<and> q \<noteq> js ''/''"
    show "goodPath q"
    proof (cases "q = pp")
      case True with gp show ?thesis by simp
    next
      case False
      show ?thesis
      proof (cases "q = ?p")
        case True
        with a ne have "e = Dir d" by simp
        with nochildren have "cleanSeg n" by blast
        with posixJoin_good(2) [OF gp] True show ?thesis by simp
      next
        case F2: False
        with False a have "m q = Some (Dir d)" by simp
        with inv a show ?thesis unfolding pageInv_def by blast
      qed
    qed
  qed
  from w r c3 c4 show ?thesis unfolding pageInv_def by blast
qed

subsection \<open>One page: its directory and its index file\<close>

lemma map_of_attach:
  "p \<noteq> pp \<Longrightarrow>
     map_of (attach p e pp par es)
       = (map_of es)(p \<mapsto> e, pp \<mapsto> Dir (par\<lparr>children := setAdd p (children par)\<rparr>))"
  by (simp add: attach_def update_conv' Let_def)

lemma distinct_attach:
  "distinct (map fst es) \<Longrightarrow> distinct (map fst (attach p e pp par es))"
  by (simp add: attach_def distinct_update Let_def)

definition pathsToDirs :: "VirtualFs \<Rightarrow> bool" where
  "pathsToDirs fs =
     (\<forall>i d. map_of (pageDirPathById fs) i = Some d \<longrightarrow>
        (\<exists>x. map_of (entries fs) d = Some (Dir x)))"

definition buildInv :: "VirtualFs \<Rightarrow> (jstring \<times> jstring list) list \<Rightarrow> bool" where
  "buildInv fs sib =
     (distinct (map fst (entries fs)) \<and> pageInv (map_of (entries fs)) sib \<and> pathsToDirs fs)"

definition dirsKept :: "VirtualFs \<Rightarrow> VirtualFs \<Rightarrow> bool" where
  "dirsKept fs fs' =
     (\<forall>q x. map_of (entries fs) q = Some (Dir x) \<longrightarrow>
        (\<exists>x'. map_of (entries fs') q = Some (Dir x')))"

lemma dirsKept_refl: "dirsKept fs fs"
  by (simp add: dirsKept_def)

lemma dirsKept_trans: "dirsKept a b \<Longrightarrow> dirsKept b c \<Longrightarrow> dirsKept a c"
  unfolding dirsKept_def by blast

definition pageOk :: "NotionRecordMeta \<Rightarrow> bool" where
  "pageOk page = (slash \<notin> set (recId page))"

text \<open>The part of \<open>buildPageTree\<close> before the loop over the children.\<close>

definition pageStep ::
  "BuildContext \<Rightarrow> NotionRecordMeta \<Rightarrow> jstring \<Rightarrow> VirtualFs \<times> (jstring \<times> jstring list) list
     \<Rightarrow> fs_error + jstring \<times> VirtualFs \<times> (jstring \<times> jstring list) list" where
  "pageStep ctx page pp st =
     (case uniqueName (slugFromTitle (ctx_slugify ctx) (title page)) (namesIn (snd st) pp)
             (recId page) of
        (dirName, used') \<Rightarrow>
          (case addDir (posixJoin [pp, dirName]) dirName pp (pageMeta page) (fst st) of
             Inl e \<Rightarrow> Inl e
           | Inr fs1 \<Rightarrow>
               (case addPageFile (posixJoin [posixJoin [pp, dirName], js ''index.md''])
                       (posixJoin [pp, dirName]) page
                       (fs1\<lparr>pageDirPathById :=
                              AList.update (recId page) (posixJoin [pp, dirName])
                                (pageDirPathById fs1)\<rparr>) of
                  Inl e \<Rightarrow> Inl e
                | Inr fs3 \<Rightarrow>
                    Inr (posixJoin [pp, dirName], fs3, AList.update pp used' (snd st)))))"

lemma buildPageTree_Suc:
  "buildPageTree (Suc depth) ctx page pp st =
     (case pageStep ctx page pp st of
        Inl e \<Rightarrow> Inl e
      | Inr (dirPath, fs3, sib') \<Rightarrow>
          buildPageTrees depth ctx
            (sortByTitle (ctx_localeCompare ctx)
               (case map_of (ctx_childrenByParentPage ctx) (recId page) of
                  None \<Rightarrow> [] | Some cs \<Rightarrow> cs))
            dirPath (fs3, sib'))"
  by (cases st) (simp add: pageStep_def namesIn_def Let_def split: prod.splits sum.splits)

lemma namesIn_update:
  "namesIn (AList.update pp u sib) q = (if q = pp then u else namesIn sib q)"
  by (simp add: namesIn_def update_conv')

lemma pageStep_inv:
  assumes step: "pageStep ctx page pp (fs, sib) = Inr (dirPath, fs3, sib')"
    and inv: "buildInv fs sib"
    and par: "map_of (entries fs) pp = Some (Dir par)" and pr: "pp \<noteq> js ''/''"
    and so: "slugOk (ctx_slugify ctx)" and po: "pageOk page"
  shows "buildInv fs3 sib' \<and> dirsKept fs fs3
       \<and> (\<exists>d. map_of (entries fs3) dirPath = Some (Dir d)) \<and> dirPath \<noteq> js ''/''"
proof -
  let ?m = "map_of (entries fs)"
  let ?base = "slugFromTitle (ctx_slugify ctx) (title page)"
  obtain dirName used' where u: "uniqueName ?base (namesIn sib pp) (recId page) = (dirName, used')"
    by (cases "uniqueName ?base (namesIn sib pp) (recId page)")
  from uniqueName_fresh [OF u] have nu: "dirName \<notin> set (namesIn sib pp)"
    and used': "used' = namesIn sib pp @ [dirName]" by auto
  have cn: "cleanName dirName"
    using uniqueName_clean [OF u slugFromTitle_clean(3,1,2) [OF so]] po by (simp add: pageOk_def)
  then have cs: "cleanSeg dirName" and ns: "slash \<notin> set dirName"
    by (simp_all add: cleanName_def cleanSeg_def)
  have pinv: "pageInv ?m sib" and dist: "distinct (map fst (entries fs))" and pd: "pathsToDirs fs"
    using inv by (simp_all add: buildInv_def)
  have gp: "goodPath pp" using pinv par pr unfolding pageInv_def by blast
  let ?d = "pp @ [slash] @ dirName"
  have dj: "posixJoin [pp, dirName] = ?d" and gd: "goodPath ?d"
    using posixJoin_good [OF gp cs] by auto
  have fd: "?m ?d = None" by (rule fresh_dir [OF pinv gp cn nu])
  have epd: "ensureParentDir fs pp = Inr par" using par by (simp add: ensureParentDir_def)
  let ?newd = "\<lparr>name = dirName, path = ?d, parentPath = pp, meta = pageMeta page, children = []\<rparr>"
  let ?es1 = "attach ?d (Dir ?newd) pp par (entries fs)"
  let ?fs1 = "fs\<lparr>entries := ?es1\<rparr>"
  have a1: "addDir ?d dirName pp (pageMeta page) fs = Inr ?fs1"
    using epd by (simp add: addDir_def)
  let ?par' = "Dir (par\<lparr>children := setAdd ?d (children par)\<rparr>)"
  let ?m1 = "?m(?d \<mapsto> Dir ?newd, pp \<mapsto> ?par')"
  have m1: "map_of ?es1 = ?m1" by (rule map_of_attach) simp
  let ?sib' = "AList.update pp used' sib"
  have grow: "\<And>q. set (namesIn sib q) \<subseteq> set (namesIn ?sib' q)"
    by (auto simp: namesIn_update used')
  have inv1: "pageInv ?m1 ?sib'"
  proof (rule pageInv_add [OF pinv par gp fd ns _ _ _ _ grow])
    show "entryPath (Dir ?newd) = ?d" by simp
    show "entryParentPath (Dir ?newd) = pp" by simp
    show "\<And>d. Dir ?newd = Dir d \<Longrightarrow> children d = [] \<and> cleanSeg dirName" using cs by auto
    show "namedUnder ?sib' (Dir ?newd) dirName"
      by (simp add: namedUnder_def namesIn_update used')
  qed
  let ?fs2 = "?fs1\<lparr>pageDirPathById := AList.update (recId page) ?d (pageDirPathById ?fs1)\<rparr>"
  let ?i = "?d @ [slash] @ js ''index.md''"
  have ci: "cleanSeg (js ''index.md'')" by (simp add: cleanSeg_def slash_def)
  have ij: "posixJoin [?d, js ''index.md''] = ?i" using posixJoin_good(1) [OF gd ci] .
  have dne: "?d \<noteq> []" by simp
  have "?m ?i = None" by (rule fresh_index [OF pinv fd dne])
  moreover have "?i \<noteq> ?d" by simp
  moreover have "?i \<noteq> pp" by simp
  ultimately have fi: "?m1 ?i = None" by simp
  have d1: "?m1 ?d = Some (Dir ?newd)" by simp
  have epd2: "ensureParentDir ?fs2 ?d = Inr ?newd"
    using d1 m1 by (simp add: ensureParentDir_def)
  let ?f = "\<lparr>name = js ''index.md'', path = ?i, parentPath = ?d,
              meta = \<lparr>meta_createdTime = Some (createdTime page),
                       meta_lastEditedTime = Some (lastEditedTime page),
                       meta_owner = Some (owner page),
                       meta_pageId = Some (recId page), meta_databaseId = None\<rparr>,
              readonly = False, pageId = recId page\<rparr>"
  let ?es2 = "attach ?i (File ?f) ?d ?newd ?es1"
  let ?fs3 = "?fs2\<lparr>entries := ?es2\<rparr>"
  have a2: "addPageFile ?i ?d page ?fs2 = Inr ?fs3"
    using epd2 by (simp add: addPageFile_def)
  have st: "pageStep ctx page pp (fs, sib) = Inr (?d, ?fs3, ?sib')"
    unfolding pageStep_def fst_conv snd_conv u prod.case dj a1 sum.case ij a2 ..
  with step have res: "dirPath = ?d" "fs3 = ?fs3" "sib' = ?sib'" by auto
  let ?newd' = "Dir (?newd\<lparr>children := setAdd ?i (children ?newd)\<rparr>)"
  let ?m2 = "?m1(?i \<mapsto> File ?f, ?d \<mapsto> ?newd')"
  have m2: "map_of ?es2 = ?m2"
  proof -
    have "?i \<noteq> ?d" by simp
    from map_of_attach [OF this, of "File ?f" ?newd ?es1] show ?thesis unfolding m1 .
  qed
  have inv2: "pageInv ?m2 ?sib'"
  proof (rule pageInv_add [OF inv1 d1 gd fi])
    show "slash \<notin> set (js ''index.md'')" by (simp add: slash_def)
    show "entryPath (File ?f) = ?i" by simp
    show "entryParentPath (File ?f) = ?d" by simp
    show "\<And>d. File ?f = Dir d \<Longrightarrow> children d = [] \<and> cleanSeg (js ''index.md'')" by simp
    show "namedUnder ?sib' (File ?f) (js ''index.md'')" by (simp add: namedUnder_def)
    show "\<And>q. set (namesIn ?sib' q) \<subseteq> set (namesIn ?sib' q)" by simp
  qed
  have dist3: "distinct (map fst ?es2)" using dist by (intro distinct_attach)
  have kept_m: "\<And>q x. ?m q = Some (Dir x) \<Longrightarrow> \<exists>x'. ?m2 q = Some (Dir x')"
  proof -
    fix q x assume q: "?m q = Some (Dir x)"
    then have "q \<noteq> ?d" using fd by auto
    moreover have "q \<noteq> ?i" using q \<open>?m ?i = None\<close> by auto
    ultimately show "\<exists>x'. ?m2 q = Some (Dir x')" using q by (cases "q = pp") auto
  qed
  have kept: "dirsKept fs ?fs3" unfolding dirsKept_def using kept_m m2 by simp
  have d3: "?m2 ?d = Some ?newd'" by simp
  have pd3: "pathsToDirs ?fs3"
    unfolding pathsToDirs_def
  proof (intro allI impI)
    fix i d assume a: "map_of (pageDirPathById ?fs3) i = Some d"
    show "\<exists>x. map_of (entries ?fs3) d = Some (Dir x)"
    proof (cases "i = recId page")
      case True
      with a have "d = ?d" by (simp add: update_conv')
      with d3 m2 show ?thesis by simp
    next
      case False
      with a have "map_of (pageDirPathById fs) i = Some d" by (simp add: update_conv')
      with pd obtain x where "?m d = Some (Dir x)" unfolding pathsToDirs_def by blast
      from kept_m [OF this] m2 show ?thesis by simp
    qed
  qed
  have root: "?m (js ''/'') \<noteq> None" using pinv by (simp add: pageInv_def)
  have dr: "?d \<noteq> js ''/''" using fd root by auto
  have "buildInv ?fs3 ?sib'"
    unfolding buildInv_def using dist3 inv2 pd3 m2 by simp
  with kept d3 m2 dr res show ?thesis by simp
qed

subsection \<open>The page trees\<close>

definition ctxOk :: "BuildContext \<Rightarrow> bool" where
  "ctxOk ctx =
     (slugOk (ctx_slugify ctx)
      \<and> (\<forall>i cs. map_of (ctx_childrenByParentPage ctx) i = Some cs \<longrightarrow> list_all pageOk cs))"

lemma set_insertByTitle: "set (insertByTitle cmp x ys) = insert x (set ys)"
  by (induction ys) auto

lemma set_foldl_insertByTitle:
  "set (foldl (\<lambda>acc x. insertByTitle cmp x acc) acc0 xs) = set acc0 \<union> set xs"
  by (induction xs arbitrary: acc0) (auto simp: set_insertByTitle)

lemma set_sortByTitle: "set (sortByTitle cmp xs) = set xs"
  by (simp add: sortByTitle_def set_foldl_insertByTitle)

definition treeOk :: "nat \<Rightarrow> BuildContext \<Rightarrow> bool" where
  "treeOk depth ctx =
     (\<forall>page pp fs sib fs' sib' par.
        buildPageTree depth ctx page pp (fs, sib) = Inr (fs', sib') \<longrightarrow>
        buildInv fs sib \<longrightarrow> map_of (entries fs) pp = Some (Dir par) \<longrightarrow> pp \<noteq> js ''/'' \<longrightarrow>
        pageOk page \<longrightarrow> buildInv fs' sib' \<and> dirsKept fs fs')"

definition treesOk :: "nat \<Rightarrow> BuildContext \<Rightarrow> bool" where
  "treesOk depth ctx =
     (\<forall>pages pp fs sib fs' sib' par.
        buildPageTrees depth ctx pages pp (fs, sib) = Inr (fs', sib') \<longrightarrow>
        buildInv fs sib \<longrightarrow> map_of (entries fs) pp = Some (Dir par) \<longrightarrow> pp \<noteq> js ''/'' \<longrightarrow>
        list_all pageOk pages \<longrightarrow> buildInv fs' sib' \<and> dirsKept fs fs')"

lemma treesOk_from_treeOk:
  assumes t: "treeOk depth ctx"
  shows "treesOk depth ctx"
proof -
  have "\<And>pp fs sib fs' sib' par.
        buildPageTrees depth ctx pages pp (fs, sib) = Inr (fs', sib') \<Longrightarrow>
        buildInv fs sib \<Longrightarrow> map_of (entries fs) pp = Some (Dir par) \<Longrightarrow> pp \<noteq> js ''/'' \<Longrightarrow>
        list_all pageOk pages \<Longrightarrow> buildInv fs' sib' \<and> dirsKept fs fs'" for pages
  proof (induction pages)
    case Nil
    then show ?case by (simp add: dirsKept_refl)
  next
    case (Cons page rest)
    from Cons.prems(1) obtain fs1 sib1 where
      one: "buildPageTree depth ctx page pp (fs, sib) = Inr (fs1, sib1)"
      and more: "buildPageTrees depth ctx rest pp (fs1, sib1) = Inr (fs', sib')"
      by (auto split: sum.splits)
    from Cons.prems(5) have po: "pageOk page" and ro: "list_all pageOk rest" by simp_all
    from t one Cons.prems(2,3,4) po have i1: "buildInv fs1 sib1" and k1: "dirsKept fs fs1"
      unfolding treeOk_def by blast+
    from k1 Cons.prems(3) obtain par1 where p1: "map_of (entries fs1) pp = Some (Dir par1)"
      unfolding dirsKept_def by blast
    from Cons.IH [OF more i1 p1 Cons.prems(4) ro] k1 show ?case
      using dirsKept_trans by blast
  qed
  then show ?thesis unfolding treesOk_def by blast
qed

lemma treeOk_all:
  assumes c: "ctxOk ctx"
  shows "treeOk depth ctx"
proof (induction depth)
  case 0
  show ?case unfolding treeOk_def by simp
next
  case (Suc depth)
  have ts: "treesOk depth ctx" using Suc by (rule treesOk_from_treeOk)
  show ?case
    unfolding treeOk_def
  proof (intro allI impI)
    fix page pp fs sib fs' sib' par
    assume b: "buildPageTree (Suc depth) ctx page pp (fs, sib) = Inr (fs', sib')"
      and inv: "buildInv fs sib" and par: "map_of (entries fs) pp = Some (Dir par)"
      and pr: "pp \<noteq> js ''/''" and po: "pageOk page"
    let ?kids = "sortByTitle (ctx_localeCompare ctx)
               (case map_of (ctx_childrenByParentPage ctx) (recId page) of
                  None \<Rightarrow> [] | Some cs \<Rightarrow> cs)"
    from b obtain dirPath fs3 sib3 where
      st: "pageStep ctx page pp (fs, sib) = Inr (dirPath, fs3, sib3)"
      and kids: "buildPageTrees depth ctx ?kids dirPath (fs3, sib3) = Inr (fs', sib')"
      unfolding buildPageTree_Suc by (auto split: sum.splits)
    from c have so: "slugOk (ctx_slugify ctx)" by (simp add: ctxOk_def)
    from pageStep_inv [OF st inv par pr so po] obtain d where
      i3: "buildInv fs3 sib3" and k3: "dirsKept fs fs3"
      and d3: "map_of (entries fs3) dirPath = Some (Dir d)" and dr: "dirPath \<noteq> js ''/''"
      by blast
    have ko: "list_all pageOk ?kids"
    proof (cases "map_of (ctx_childrenByParentPage ctx) (recId page)")
      case None
      then show ?thesis by (simp add: list_all_iff set_sortByTitle)
    next
      case (Some cs)
      with c have "list_all pageOk cs" unfolding ctxOk_def by blast
      with Some show ?thesis by (simp add: list_all_iff set_sortByTitle)
    qed
    from ts kids i3 d3 dr ko have "buildInv fs' sib' \<and> dirsKept fs3 fs'"
      unfolding treesOk_def by blast
    with k3 show "buildInv fs' sib' \<and> dirsKept fs fs'" using dirsKept_trans by blast
  qed
qed

lemma partitionPages_ok:
  "partitionPages known ps (ch, rs) = (ch', rs') \<Longrightarrow>
     list_all pageOk ps \<Longrightarrow> list_all pageOk rs \<Longrightarrow>
     (\<forall>i cs. map_of ch i = Some cs \<longrightarrow> list_all pageOk cs) \<Longrightarrow>
     list_all pageOk rs' \<and> (\<forall>i cs. map_of ch' i = Some cs \<longrightarrow> list_all pageOk cs)"
proof (induction ps arbitrary: ch rs)
  case Nil
  then show ?case by simp
next
  case (Cons page rest)
  from Cons.prems(2) have po: "pageOk page" and ro: "list_all pageOk rest" by simp_all
  let ?target = "(case parentPageId page of
                 None \<Rightarrow> None
               | Some pid \<Rightarrow> if map_of known pid = None then None else Some pid)"
  show ?case
  proof (cases "parentType page = Some (js ''page_id'') \<and> ?target \<noteq> None")
    case True
    then obtain pid where pid: "?target = Some pid" by blast
    let ?ch1 = "AList.update pid
                  ((case map_of ch pid of None \<Rightarrow> [] | Some cs \<Rightarrow> cs) @ [page]) ch"
    from True pid Cons.prems(1) have r: "partitionPages known rest (?ch1, rs) = (ch', rs')"
      by simp
    have "\<forall>i cs. map_of ?ch1 i = Some cs \<longrightarrow> list_all pageOk cs"
      using Cons.prems(4) po by (auto simp: update_conv' split: option.splits)
    from Cons.IH [OF r ro Cons.prems(3) this] show ?thesis .
  next
    case False
    with Cons.prems(1) have r: "partitionPages known rest (ch, rs @ [page]) = (ch', rs')"
      by (auto split: option.splits if_splits)
    have "list_all pageOk (rs @ [page])" using Cons.prems(3) po by simp
    from Cons.IH [OF r ro this Cons.prems(4)] show ?thesis .
  qed
qed

subsection \<open>The placeholders\<close>

definition dbInv :: "VirtualFs \<Rightarrow> bool" where
  "dbInv fs =
     (distinct (map fst (entries fs)) \<and> wfMap (map_of (entries fs))
      \<and> map_of (entries fs) (js ''/'') \<noteq> None
      \<and> (\<exists>x. map_of (entries fs) (js ''/pages'') = Some (Dir x))
      \<and> pathsToDirs fs)"

lemma findUniqueIndex_fresh:
  "map_of es (candidatePath pp f (findUniqueIndex es pp f i)) = None"
proof (induction es pp f i rule: findUniqueIndex.induct)
  case (1 es pp f i)
  show ?case
  proof (cases "map_of es (candidatePath pp f i) \<noteq> None")
    case True
    then have "findUniqueIndex es pp f i = findUniqueIndex es pp f (i + 1)"
      by (subst findUniqueIndex.simps) simp
    with "1.IH" [OF True] show ?thesis by simp
  next
    case False
    then have "findUniqueIndex es pp f i = i" by (subst findUniqueIndex.simps) simp
    with False show ?thesis by simp
  qed
qed

lemma findUniquePath_fresh: "map_of (entries fs) (findUniquePath fs pp f) = None"
  by (simp add: findUniquePath_def findUniqueIndex_fresh)

lemma databaseParentPath_dir:
  assumes "dbInv fs"
  shows "\<exists>x. map_of (entries fs) (databaseParentPath fs db) = Some (Dir x)"
proof -
  from assms have pg: "\<exists>x. map_of (entries fs) (js ''/pages'') = Some (Dir x)"
    and pd: "pathsToDirs fs" unfolding dbInv_def by blast+
  show ?thesis
    unfolding databaseParentPath_def
    using pg pd unfolding pathsToDirs_def
    by (auto split: option.splits)
qed

lemma addDbPlaceholder_inv:
  assumes a: "addDbPlaceholder p nm pp db fs = Inr fs'"
    and fresh: "map_of (entries fs) p = None" and inv: "dbInv fs"
  shows "dbInv fs'"
proof -
  let ?m = "map_of (entries fs)"
  from a obtain par where par: "?m pp = Some (Dir par)"
    by (auto simp: addDbPlaceholder_def ensureParentDir_def split: option.splits FsEntry.splits)
  let ?e = "Db \<lparr>name = nm, path = p, parentPath = pp,
                        meta = \<lparr>meta_createdTime = Some (createdTime db),
                                 meta_lastEditedTime = Some (lastEditedTime db),
                                 meta_owner = Some (owner db),
                                 meta_pageId = None, meta_databaseId = Some (recId db)\<rparr>,
                        databaseId = recId db\<rparr>"
  from a par have fs': "fs' = fs\<lparr>entries := attach p ?e pp par (entries fs)\<rparr>"
    by (simp add: addDbPlaceholder_def ensureParentDir_def)
  have ne: "p \<noteq> pp" using par fresh by auto
  let ?m' = "?m(p \<mapsto> ?e, pp \<mapsto> Dir (par\<lparr>children := setAdd p (children par)\<rparr>))"
  have m': "map_of (entries fs') = ?m'" unfolding fs' using map_of_attach [OF ne] by simp
  from inv have dist: "distinct (map fst (entries fs))" and wf: "wfMap ?m"
    and root: "?m (js ''/'') \<noteq> None"
    and pg: "\<exists>x. ?m (js ''/pages'') = Some (Dir x)" and pd: "pathsToDirs fs"
    unfolding dbInv_def by blast+
  have w: "wfMap ?m'"
    by (rule wfMap_attach [OF wf par fresh root]) simp_all
  have kept: "\<And>q x. ?m q = Some (Dir x) \<Longrightarrow> \<exists>x'. ?m' q = Some (Dir x')"
  proof -
    fix q x assume q: "?m q = Some (Dir x)"
    then have "q \<noteq> p" using fresh by auto
    then show "\<exists>x'. ?m' q = Some (Dir x')" using q by (cases "q = pp") auto
  qed
  have d': "distinct (map fst (entries fs'))" unfolding fs' using dist by (simp add: distinct_attach)
  have r': "?m' (js ''/'') \<noteq> None" using root by simp
  have pg': "\<exists>x. ?m' (js ''/pages'') = Some (Dir x)" using pg kept by blast
  have pd': "pathsToDirs fs'"
    unfolding pathsToDirs_def m'
  proof (intro allI impI)
    fix i d assume "map_of (pageDirPathById fs') i = Some d"
    then have "map_of (pageDirPathById fs) i = Some d" by (simp add: fs')
    with pd obtain x where "?m d = Some (Dir x)" unfolding pathsToDirs_def by blast
    from kept [OF this] show "\<exists>x. ?m' d = Some (Dir x)" .
  qed
  from d' w r' pg' pd' show ?thesis unfolding dbInv_def m' by blast
qed

lemma placeDatabases_inv:
  "placeDatabases dbs (fs, names) = Inr (fs', names') \<Longrightarrow> dbInv fs \<Longrightarrow> dbInv fs'"
proof (induction dbs arbitrary: fs names)
  case Nil
  then show ?case by simp
next
  case (Cons db rest)
  let ?pp = "databaseParentPath fs db"
  let ?used = "(case map_of names ?pp of None \<Rightarrow> [] | Some u \<Rightarrow> u)"
  obtain nm used' where u: "uniqueName (js ''[db:'' @ shortId (recId db) @ js '']'') ?used (recId db)
      = (nm, used')"
    by (cases "uniqueName (js ''[db:'' @ shortId (recId db) @ js '']'') ?used (recId db)")
  from Cons.prems(1) u obtain fs1 where
    a: "addDbPlaceholder (findUniquePath fs ?pp nm) nm ?pp db fs = Inr fs1"
    and r: "placeDatabases rest (fs1, AList.update ?pp used' names) = Inr (fs', names')"
    by (auto simp: Let_def split: sum.splits)
  from addDbPlaceholder_inv [OF a findUniquePath_fresh Cons.prems(2)] have "dbInv fs1" .
  from Cons.IH [OF r this] show ?case .
qed

subsection \<open>The rebuild\<close>

definition idsOk :: "NotionRecordMeta list \<Rightarrow> bool" where
  "idsOk pages = list_all (\<lambda>page. slash \<notin> set (recId page)) pages"

lemma initial_inv:
  assumes "entries fs = [(js ''/'', Dir rootDir), (js ''/pages'', Dir pagesRootDir)]"
    and "pageDirPathById fs = []"
  shows "buildInv fs []"
proof -
  have w: "wfMap (map_of (entries fs))"
    unfolding wfMap_def assms(1)
    by (auto simp: rootDir_def pagesRootDir_def split: if_splits)
  have p: "pageInv (map_of (entries fs)) []"
    unfolding pageInv_def using w goodPath_pages
    by (auto simp: assms(1) split: if_splits)
  show ?thesis
    unfolding buildInv_def using p by (simp add: assms pathsToDirs_def)
qed

text \<open>
  Claim C3, as the code has it. Let the slug function return no string that holds a
  \<open>/\<close> or a \<open>.\<close> (as \<open>slugify\<close> in strict mode does), and let no page id hold a
  \<open>/\<close> (as no identifier of the remote store does). Then after every rebuild that
  succeeds, whatever the pages, the databases and the collation, the tree is well formed:
  the keys of the map are distinct and each entry's path is its key, the parent path of
  every entry but the root is the key of a directory whose children hold the entry, and
  every child path of a directory is the key of an entry whose parent path is that
  directory.
\<close>

theorem rebuilt_tree_well_formed:
  assumes so: "slugOk slugify" and io: "idsOk pages"
    and r: "rebuild slugify localeCompare pages databases now fs = Inr fs'"
  shows "wellFormedTree (entries fs')"
proof -
  let ?fs1 = "(reset fs)\<lparr>notionPages :=
                   foldl (\<lambda>known page. AList.update (recId page) page known) [] pages\<rparr>"
  let ?elig = "filter (\<lambda>page. parentType page \<noteq> Some (js ''database_id'')) pages"
  obtain ch roots where pp: "partitionPages (notionPages ?fs1) ?elig ([], []) = (ch, roots)"
    by (cases "partitionPages (notionPages ?fs1) ?elig ([], [])")
  let ?ctx = "\<lparr>ctx_slugify = slugify, ctx_localeCompare = localeCompare,
                      ctx_childrenByParentPage = ch\<rparr>"
  from r pp obtain fs2 sib2 names3 fs3 where
    b: "buildPageTrees (Suc (length pages)) ?ctx (sortByTitle localeCompare roots) (js ''/pages'')
          (?fs1, []) = Inr (fs2, sib2)"
    and d: "placeDatabases databases (fs2, []) = Inr (fs3, names3)"
    and f: "fs' = fs3\<lparr>indexedAtLeastOnce := True, lastRefreshAt := now\<rparr>"
    unfolding rebuild_def Let_def by (auto split: sum.splits prod.splits)
  have po: "list_all pageOk pages" using io by (simp add: idsOk_def pageOk_def [abs_def])
  then have eo: "list_all pageOk ?elig" by (simp add: list_all_iff)
  from partitionPages_ok [OF pp eo] have ro: "list_all pageOk roots"
    and co: "\<forall>i cs. map_of ch i = Some cs \<longrightarrow> list_all pageOk cs" by simp_all
  have c: "ctxOk ?ctx" using so co by (simp add: ctxOk_def)
  have i1: "buildInv ?fs1 []" by (rule initial_inv) (simp_all add: reset_def)
  have p1: "map_of (entries ?fs1) (js ''/pages'') = Some (Dir pagesRootDir)"
    by (simp add: reset_def)
  have so': "list_all pageOk (sortByTitle localeCompare roots)"
    using ro by (simp add: list_all_iff set_sortByTitle)
  have ts: "treesOk (Suc (length pages)) ?ctx"
    by (rule treesOk_from_treeOk [OF treeOk_all [OF c]])
  have ne: "js ''/pages'' \<noteq> js ''/''" by simp
  from ts b i1 p1 ne so' have "buildInv fs2 sib2 \<and> dirsKept ?fs1 fs2"
    unfolding treesOk_def by blast
  then have i2: "buildInv fs2 sib2" and k2: "dirsKept ?fs1 fs2" by blast+
  from k2 p1 have pg: "\<exists>x. map_of (entries fs2) (js ''/pages'') = Some (Dir x)"
    unfolding dirsKept_def by blast
  have "dbInv fs2"
    using i2 pg unfolding dbInv_def buildInv_def pageInv_def by blast
  from placeDatabases_inv [OF d this] have "dbInv fs3" .
  then have "wellFormedTree (entries fs3)"
    unfolding dbInv_def using wfMap_wellFormedTree by blast
  with f show ?thesis by simp
qed

section \<open>Scenarios of the rebuild\<close>

text \<open>
  Stand-ins for the scenarios: a slug function for ASCII titles (letters in lower case,
  digits kept, a space as a hyphen, everything else dropped) and the comparison of titles
  by code units.
\<close>

definition asciiSlugChar :: "nat \<Rightarrow> jstring" where
  "asciiSlugChar u =
     (if 65 \<le> u \<and> u \<le> 90 then [u + 32]
      else if (97 \<le> u \<and> u \<le> 122) \<or> (48 \<le> u \<and> u \<le> 57) then [u]
      else if u = 32 then js ''-''
      else [])"

definition asciiSlug :: "jstring \<Rightarrow> jstring" where
  "asciiSlug t = concat (map asciiSlugChar t)"

fun codeUnitCompare :: "jstring \<Rightarrow> jstring \<Rightarrow> int" where
  "codeUnitCompare [] [] = 0"
| "codeUnitCompare [] (y # ys) = -1"
| "codeUnitCompare (x # xs) [] = 1"
| "codeUnitCompare (x # xs) (y # ys) =
     (if x < y then -1 else if y < x then 1 else codeUnitCompare xs ys)"

definition emptyFs :: VirtualFs where
  "emptyFs = \<lparr>entries = [], pageDirPathById = [], cache = [], notionPages = [], ttlMs = 30000,
     rootPageId = None, refreshPromise = False, lastRefreshAt = 0, indexedAtLeastOnce = False\<rparr>"

definition entryPaths :: "fs_error + VirtualFs \<Rightarrow> jstring list" where
  "entryPaths r = (case r of Inl e \<Rightarrow> [] | Inr fs \<Rightarrow> map fst (entries fs))"

definition treeOf :: "fs_error + VirtualFs \<Rightarrow> (jstring \<times> FsEntry) list" where
  "treeOf r = (case r of Inl e \<Rightarrow> [] | Inr fs \<Rightarrow> entries fs)"

lemma asciiSlug_ok: "slugOk asciiSlug"
  unfolding slugOk_def asciiSlug_def
  by (auto simp: asciiSlugChar_def slash_def split: if_splits)

definition homePages :: "NotionRecordMeta list" where
  "homePages =
     [mkRecord (js ''1111-aaaa'') (js ''page'') (js ''Home'') workspaceParent,
      mkRecord (js ''2222-bbbb'') (js ''page'') (js ''Tasks'') (pageParent (js ''1111-aaaa'')),
      mkRecord (js ''3333-cccc'') (js ''page'') (js ''Notes'') (pageParent (js ''1111-aaaa''))]"

definition homeDatabases :: "NotionRecordMeta list" where
  "homeDatabases =
     [mkRecord (js ''4444-dddd'') (js ''data_source'') (js ''DB1'') (pageParent (js ''3333-cccc''))]"

lemma home_paths:
  "entryPaths (rebuild asciiSlug codeUnitCompare homePages homeDatabases 1000 emptyFs)
   = [js ''/'', js ''/pages'', js ''/pages/home'', js ''/pages/home/index.md'',
      js ''/pages/home/notes'', js ''/pages/home/notes/index.md'',
      js ''/pages/home/tasks'', js ''/pages/home/tasks/index.md'',
      js ''/pages/home/notes/[db:4444dddd]'']"
  by code_simp

lemma home_ids: "idsOk homePages"
  by code_simp

theorem rebuilt_tree_well_formed_witness:
  "slugOk asciiSlug \<and> idsOk homePages
   \<and> entryPaths (rebuild asciiSlug codeUnitCompare homePages homeDatabases 1000 emptyFs)
      = [js ''/'', js ''/pages'', js ''/pages/home'', js ''/pages/home/index.md'',
         js ''/pages/home/notes'', js ''/pages/home/notes/index.md'',
         js ''/pages/home/tasks'', js ''/pages/home/tasks/index.md'',
         js ''/pages/home/notes/[db:4444dddd]'']
   \<and> wellFormedTree (treeOf (rebuild asciiSlug codeUnitCompare homePages homeDatabases 1000 emptyFs))"
proof -
  obtain fs' where r: "rebuild asciiSlug codeUnitCompare homePages homeDatabases 1000 emptyFs = Inr fs'"
    using home_paths
    by (cases "rebuild asciiSlug codeUnitCompare homePages homeDatabases 1000 emptyFs")
       (auto simp: entryPaths_def)
  from rebuilt_tree_well_formed [OF asciiSlug_ok home_ids r]
  have "wellFormedTree (treeOf (rebuild asciiSlug codeUnitCompare homePages homeDatabases 1000 emptyFs))"
    by (simp add: r treeOf_def)
  with asciiSlug_ok home_ids home_paths show ?thesis by blast
qed

text \<open>
  Claim C3 as stated fails for an id that holds a \<open>/\<close>. The four pages below have
  distinct ids. The fourth, titled \<open>y\<close> as the third, gets the name \<open>y-/../x\<close>, which
  \<open>posix.join\<close> resolves to the path of the first page's directory: that directory is
  replaced by an empty one, and the directory \<open>/pages/x/kid\<close> is no longer among the
  children of its parent.
\<close>

definition slashIdPages :: "NotionRecordMeta list" where
  "slashIdPages =
     [mkRecord (js ''a1'') (js ''page'') (js ''x'') workspaceParent,
      mkRecord (js ''k1'') (js ''page'') (js ''kid'') (pageParent (js ''a1'')),
      mkRecord (js ''b1'') (js ''page'') (js ''y'') workspaceParent,
      mkRecord (js ''/../x'') (js ''page'') (js ''y'') workspaceParent]"

theorem slash_in_id_breaks_tree:
  "distinct (map recId slashIdPages)
   \<and> entryPaths (rebuild asciiSlug codeUnitCompare slashIdPages [] 1000 emptyFs)
      = [js ''/'', js ''/pages'', js ''/pages/x'', js ''/pages/x/index.md'',
         js ''/pages/x/kid'', js ''/pages/x/kid/index.md'', js ''/pages/y'', js ''/pages/y/index.md'']
   \<and> \<not> wellFormedTree (treeOf (rebuild asciiSlug codeUnitCompare slashIdPages [] 1000 emptyFs))"
  by code_simp

text \<open>
  The names of three pages titled \<open>Draft\<close> under one parent, the third with the
  fingerprint of the second.
\<close>

definition draftOne :: NotionRecordMeta where
  "draftOne = mkRecord (js ''1111-aaaa'') (js ''page'') (js ''Draft'') workspaceParent"

definition draftTwo :: NotionRecordMeta where
  "draftTwo = mkRecord (js ''2222-bbbb'') (js ''page'') (js ''Draft'') workspaceParent"

definition draftThree :: NotionRecordMeta where
  "draftThree = mkRecord (js ''2222-bbbb-cc'') (js ''page'') (js ''Draft'') workspaceParent"

lemma draft_slug:
  "slugFromTitle asciiSlug (title draftOne) = js ''draft''"
  "slugFromTitle asciiSlug (title draftTwo) = js ''draft''"
  "shortId (recId draftTwo) = js ''2222bbbb''"
  "shortId (recId draftThree) = js ''2222bbbb''"
  by code_simp+

lemma draft_third:
  "uniqueName (js ''draft'') [js ''draft'', js ''draft-2222bbbb''] (recId draftThree)
     = (js ''draft-2222bbbb-2'', [js ''draft'', js ''draft-2222bbbb'', js ''draft-2222bbbb-2''])"
  by code_simp

theorem sibling_name_resolution_witness:
  "siblingNames asciiSlug [draftOne, draftTwo] [] = [js ''draft'', js ''draft-2222bbbb'']
   \<and> uniqueName (js ''draft'') [js ''draft'', js ''draft-2222bbbb''] (recId draftThree)
       = (js ''draft-2222bbbb-2'', [js ''draft'', js ''draft-2222bbbb'', js ''draft-2222bbbb-2''])
   \<and> (\<exists>k\<ge>2. js ''draft-2222bbbb-2'' = numbered (js ''draft'' @ js ''-'' @ shortId (recId draftThree)) k
         \<and> (\<forall>j. 2 \<le> j \<and> j < k \<longrightarrow>
               numbered (js ''draft'' @ js ''-'' @ shortId (recId draftThree)) j
                 \<in> set [js ''draft'', js ''draft-2222bbbb'']))
   \<and> entryPaths (rebuild asciiSlug codeUnitCompare [draftOne, draftTwo, draftThree] [] 1000 emptyFs)
       = [js ''/'', js ''/pages'', js ''/pages/draft'', js ''/pages/draft/index.md'',
          js ''/pages/draft-2222bbbb'', js ''/pages/draft-2222bbbb/index.md'',
          js ''/pages/draft-2222bbbb-2'', js ''/pages/draft-2222bbbb-2/index.md'']"
proof -
  note t = sibling_name_resolution
    [of "js ''draft''" "[js ''draft'', js ''draft-2222bbbb'']" "recId draftThree" asciiSlug
        "[]" draftOne draftTwo]
  have u: "set [js ''draft'', js ''draft-2222bbbb'']
            = {js ''draft'', js ''draft'' @ js ''-'' @ shortId (recId draftThree)}"
    unfolding draft_slug by simp
  have in1: "js ''draft'' \<in> set [js ''draft'', js ''draft-2222bbbb'']" by simp
  have in2: "js ''draft'' @ js ''-'' @ shortId (recId draftThree)
         \<in> set [js ''draft'', js ''draft-2222bbbb'']" unfolding u by blast
  from t draft_third in1 in2
  have a: "\<exists>k\<ge>2. js ''draft-2222bbbb-2'' = numbered (js ''draft'' @ js ''-'' @ shortId (recId draftThree)) k
         \<and> (\<forall>j. 2 \<le> j \<and> j < k \<longrightarrow>
               numbered (js ''draft'' @ js ''-'' @ shortId (recId draftThree)) j
                 \<in> set [js ''draft'', js ''draft-2222bbbb''])"
    by blast
  have b: "siblingNames asciiSlug [draftOne, draftTwo] [] = [js ''draft'', js ''draft-2222bbbb'']"
    by code_simp
  have c: "entryPaths (rebuild asciiSlug codeUnitCompare [draftOne, draftTwo, draftThree] [] 1000 emptyFs)
       = [js ''/'', js ''/pages'', js ''/pages/draft'', js ''/pages/draft/index.md'',
          js ''/pages/draft-2222bbbb'', js ''/pages/draft-2222bbbb/index.md'',
          js ''/pages/draft-2222bbbb-2'', js ''/pages/draft-2222bbbb-2/index.md'']"
    by code_simp
  from a b c draft_third show ?thesis by blast
qed

end
